theory Spec2Isabelle
  imports Complex_Main "HOL-Library.Product_Lexorder"
begin

section \<open>Data model (types.ts)\<close>

text \<open>
  The simulation engine of the async-flow visualisation. Numbers of the source are
  JavaScript numbers: logical times, positions and opacities are modelled as exact
  reals (no IEEE rounding), counts (replica bounds, targets, concurrency) as integers,
  identities as naturals (a request id \<open>req-N\<close> is the natural \<open>N\<close>).
  The purely visual fields \<open>y\<close>, \<open>targetY\<close> and \<open>scale\<close> are written but
  never read by the engine and are left out; \<open>x\<close>, \<open>targetX\<close> and \<open>alpha\<close> gate
  state transitions and are kept. The engine also compares request states with
  \<open>waiting_capacity\<close>, which the type does not have; those comparisons are always false.
  The replica state \<open>stopping\<close> and the field \<open>stoppingAt\<close> are used by the engine
  and are part of the model.
\<close>

datatype RequestState =
  Entering | Validating | Queued | WaitingForModel | Processing | Delivering
  | Completed | Failed | Expired | RateLimited | Exiting

record Request =
  req_id :: nat
  req_state :: RequestState
  priority :: nat
  createdAt :: real
  queuedAt :: "real option"
  processorPickedAt :: "real option"
  processStartedAt :: "real option"
  completedAt :: "real option"
  assignedReplica :: "nat option"
  req_x :: real
  req_targetX :: real
  req_alpha :: real

datatype ReplicaState = Stopped | Starting | Ready | Busy | Stopping

record Replica =
  rep_id :: nat
  rep_state :: ReplicaState
  startingAt :: "real option"
  stoppingAt :: "real option"
  currentRequestIds :: "nat list"

record SimulationConfig =
  modelProcessingTimeMs :: real
  coldStartTimeMs :: real
  predictConcurrency :: int
  minReplicas :: int
  maxReplicas :: int
  concurrencyTarget :: int
  scaleDownDelayMs :: real
  autoscalingWindowMs :: real
  maxQueueSize :: int
  maxTimeInQueueMs :: real
  webhookTimeMs :: real

record Metrics =
  m_queued :: nat
  m_processing :: nat
  m_completed :: nat
  m_failed :: nat
  m_expired :: nat
  m_replicas :: nat
  m_readyReplicas :: nat

text \<open>
  The class \<open>Simulation\<close>: the fields of \<open>SimulationState\<close> (\<open>tick\<close> is
  \<open>sim_tick\<close>; the constant \<open>mode\<close> is left out) together with the private fields
  of the class (the unused \<open>scaleDownDelay\<close> is left out).
\<close>

record Simulation =
  sim_tick :: real
  requests :: "Request list"
  replicas :: "Replica list"
  metrics :: Metrics
  config :: SimulationConfig
  targetReplicas :: int
  speed :: real
  paused :: bool
  nextId :: nat
  nextReplicaId :: nat
  lastActivityTick :: real
  roundRobinIndex :: nat

section \<open>Constants and small helpers\<close>

definition DEFAULT_CONFIG :: SimulationConfig where
  "DEFAULT_CONFIG = \<lparr>
     modelProcessingTimeMs = 2000, coldStartTimeMs = 3000, predictConcurrency = 1,
     minReplicas = 0, maxReplicas = 10, concurrencyTarget = 1,
     scaleDownDelayMs = 15000, autoscalingWindowMs = 5000,
     maxQueueSize = 20, maxTimeInQueueMs = 10000, webhookTimeMs = 500 \<rparr>"

definition STAGE_X_enter :: real where "STAGE_X_enter = - 30"
definition STAGE_X_gateway :: real where "STAGE_X_gateway = 80"
definition STAGE_X_queue :: real where "STAGE_X_queue = 180"
definition STAGE_X_queueEnd :: real where "STAGE_X_queueEnd = 320"
definition STAGE_X_model :: real where "STAGE_X_model = 420"
definition STAGE_X_webhook :: real where "STAGE_X_webhook = 720"
definition STAGE_X_exit :: real where "STAGE_X_exit = 1050"

text \<open>\<open>(v || 0)\<close> on an optional number.\<close>

definition orZero :: "real option \<Rightarrow> real" where
  "orZero v = (case v of None \<Rightarrow> 0 | Some t \<Rightarrow> t)"

text \<open>Truthiness of an optional number: \<open>undefined\<close> and \<open>0\<close> are falsy.\<close>

definition truthy :: "real option \<Rightarrow> bool" where
  "truthy v = (case v of None \<Rightarrow> False | Some t \<Rightarrow> t \<noteq> 0)"

text \<open>\<open>Array.prototype.findIndex\<close>; \<open>find\<close> on an array of objects that are then
  mutated is the index of the first match.\<close>

fun findIndex :: "('a \<Rightarrow> bool) \<Rightarrow> 'a list \<Rightarrow> nat option" where
  "findIndex P [] = None"
| "findIndex P (y # ys) = (if P y then Some 0 else map_option Suc (findIndex P ys))"

definition modRequest :: "nat \<Rightarrow> (Request \<Rightarrow> Request) \<Rightarrow> Simulation \<Rightarrow> Simulation" where
  "modRequest i f s = s\<lparr>requests := (requests s)[i := f (requests s ! i)]\<rparr>"

definition modReplica :: "nat \<Rightarrow> (Replica \<Rightarrow> Replica) \<Rightarrow> Simulation \<Rightarrow> Simulation" where
  "modReplica j f s = s\<lparr>replicas := (replicas s)[j := f (replicas s ! j)]\<rparr>"

text \<open>\<open>replica.state = replica.currentRequestIds.length >= concurrencyTarget ? 'busy' : 'ready'\<close>\<close>

definition recomputeState :: "int \<Rightarrow> Replica \<Rightarrow> Replica" where
  "recomputeState ct rp =
     rp\<lparr>rep_state := (if ct \<le> int (length (currentRequestIds rp)) then Busy else Ready)\<rparr>"

definition getReplicaX :: real where
  "getReplicaX = STAGE_X_model + 70"

section \<open>repositionQueue\<close>

text \<open>Queued requests sorted by priority, then creation time (a stable sort), as indices
  into the request array.\<close>

definition queueOrder :: "Request list \<Rightarrow> nat list" where
  "queueOrder rs =
     sort_key (\<lambda>i. (priority (rs ! i), createdAt (rs ! i)))
       (filter (\<lambda>i. req_state (rs ! i) = Queued) [0..<length rs])"

definition repositionQueue :: "Simulation \<Rightarrow> Simulation" where
  "repositionQueue s =
     (let rs = requests s;
          queued = queueOrder rs;
          queueWidth = STAGE_X_queueEnd - STAGE_X_queue;
          spacing = min 35 (queueWidth / real (max (length queued) 1))
      in s\<lparr>requests :=
            fold (\<lambda>(index, i) acc. acc[i := (acc ! i)\<lparr>req_targetX := STAGE_X_queue + real index * spacing\<rparr>])
              (enumerate 0 queued) rs\<rparr>)"

section \<open>updateRequest\<close>

definition lerpRequest :: "Request \<Rightarrow> Request" where
  "lerpRequest r = r\<lparr>req_x := req_x r + (req_targetX r - req_x r) * 0.12\<rparr>"

definition updEntering :: "nat \<Rightarrow> Simulation \<Rightarrow> Simulation" where
  "updEntering i s =
     (let r = requests s ! i in
      if \<bar>req_x r - req_targetX r\<bar> < 2
      then modRequest i (\<lambda>r. r\<lparr>req_state := Validating\<rparr>) s
      else s)"

definition updValidating :: "nat \<Rightarrow> Simulation \<Rightarrow> Simulation" where
  "updValidating i s =
     (repositionQueue
        (modRequest i (\<lambda>r. r\<lparr>req_state := Queued, queuedAt := Some (sim_tick s),
                               req_targetX := STAGE_X_queue\<rparr>) s))
       \<lparr>lastActivityTick := sim_tick s\<rparr>"

definition updQueued :: "nat \<Rightarrow> Simulation \<Rightarrow> Simulation" where
  "updQueued i s =
     (let r = requests s ! i;
          timeInQueue = sim_tick s - orZero (queuedAt r)
      in if timeInQueue > maxTimeInQueueMs (config s)
         then modRequest i (\<lambda>r. r\<lparr>req_state := Expired, req_targetX := STAGE_X_exit\<rparr>) s
         else s)"

definition updWaitingForModel :: "nat \<Rightarrow> Simulation \<Rightarrow> Simulation" where
  "updWaitingForModel i s =
     (let r = requests s ! i;
          assigned = (case assignedReplica r of
                        None \<Rightarrow> None
                      | Some a \<Rightarrow> findIndex (\<lambda>rp. rep_id rp = a) (replicas s));
          s1 = (case assigned of
                  None \<Rightarrow> s
                | Some j \<Rightarrow>
                    if rep_state (replicas s ! j) = Ready
                    then modRequest i (\<lambda>r. r\<lparr>req_targetX := getReplicaX\<rparr>)
                           (modReplica j
                              (\<lambda>rp. recomputeState (concurrencyTarget (config s))
                                       (rp\<lparr>currentRequestIds := currentRequestIds rp @ [req_id r]\<rparr>))
                              (modRequest i
                                 (\<lambda>r. r\<lparr>req_state := Processing,
                                         processStartedAt := Some (sim_tick s)\<rparr>) s))
                    else s);
          coldStartWaitTime = sim_tick s - orZero (processorPickedAt r)
      in if coldStartWaitTime > maxTimeInQueueMs (config s)
         then (let s2 = modRequest i (\<lambda>r. r\<lparr>req_state := Expired, req_targetX := STAGE_X_exit\<rparr>) s1
               in case assigned of
                    None \<Rightarrow> s2
                  | Some j \<Rightarrow>
                      modReplica j
                        (\<lambda>rp. rp\<lparr>currentRequestIds :=
                                   filter (\<lambda>k. k \<noteq> req_id r) (currentRequestIds rp)\<rparr>) s2)
         else s1)"

definition updProcessing :: "nat \<Rightarrow> Simulation \<Rightarrow> Simulation" where
  "updProcessing i s =
     (let r = requests s ! i;
          processingTime = sim_tick s - orZero (processStartedAt r)
      in if processingTime > modelProcessingTimeMs (config s)
         then (let s1 = (case findIndex (\<lambda>rp. req_id r \<in> set (currentRequestIds rp)) (replicas s) of
                           None \<Rightarrow> s
                         | Some j \<Rightarrow>
                             modReplica j
                               (\<lambda>rp. recomputeState (concurrencyTarget (config s))
                                        (rp\<lparr>currentRequestIds :=
                                              filter (\<lambda>k. k \<noteq> req_id r) (currentRequestIds rp)\<rparr>)) s)
               in (modRequest i (\<lambda>r. r\<lparr>req_state := Delivering, req_targetX := STAGE_X_webhook\<rparr>) s1)
                    \<lparr>lastActivityTick := sim_tick s\<rparr>)
         else s)"

definition updDelivering :: "nat \<Rightarrow> Simulation \<Rightarrow> Simulation" where
  "updDelivering i s =
     (let r = requests s ! i in
      if \<bar>req_x r - req_targetX r\<bar> < 5
      then (let deliveryTime = sim_tick s - orZero (processStartedAt r)
                                 - modelProcessingTimeMs (config s)
            in if deliveryTime > webhookTimeMs (config s)
               then modRequest i (\<lambda>r. r\<lparr>req_state := Completed, completedAt := Some (sim_tick s),
                                          req_targetX := STAGE_X_exit\<rparr>) s
               else s)
      else s)"

text \<open>The fade-out shared by the three settled states: lower \<open>alpha\<close> by \<open>d\<close>, and
  leave for \<open>exiting\<close> once it is at most 0.01.\<close>

definition fadeOut :: "real \<Rightarrow> Request \<Rightarrow> Request" where
  "fadeOut d r =
     (let a = max 0 (req_alpha r - d)
      in r\<lparr>req_alpha := a, req_state := (if a \<le> 0.01 then Exiting else req_state r)\<rparr>)"

definition updCompleted :: "nat \<Rightarrow> Simulation \<Rightarrow> Simulation" where
  "updCompleted i s =
     (if req_x (requests s ! i) > STAGE_X_webhook + 50
      then modRequest i (fadeOut 0.02) s else s)"

definition updFailed :: "nat \<Rightarrow> Simulation \<Rightarrow> Simulation" where
  "updFailed i s =
     (let s1 = modRequest i (\<lambda>r. r\<lparr>req_x := req_x r + sin (sim_tick s * 0.05) * 2\<rparr>) s
      in if req_x (requests s1 ! i) > STAGE_X_webhook + 30
         then modRequest i (fadeOut 0.015) s1 else s1)"

definition updExpired :: "nat \<Rightarrow> Simulation \<Rightarrow> Simulation" where
  "updExpired i s = modRequest i (fadeOut 0.01) s"

text \<open>\<open>updateRequest\<close> on the request at index \<open>i\<close> of the array: the position
  interpolation, then the \<open>switch\<close> on the state the request has on entry.\<close>

definition updateRequest :: "nat \<Rightarrow> Simulation \<Rightarrow> Simulation" where
  "updateRequest i s0 =
     (let s = modRequest i lerpRequest s0 in
      case req_state (requests s ! i) of
        Entering \<Rightarrow> updEntering i s
      | Validating \<Rightarrow> updValidating i s
      | Queued \<Rightarrow> updQueued i s
      | WaitingForModel \<Rightarrow> updWaitingForModel i s
      | Processing \<Rightarrow> updProcessing i s
      | Delivering \<Rightarrow> updDelivering i s
      | Completed \<Rightarrow> updCompleted i s
      | Failed \<Rightarrow> updFailed i s
      | Expired \<Rightarrow> updExpired i s
      | RateLimited \<Rightarrow> s
      | Exiting \<Rightarrow> s)"

definition updateRequests :: "Simulation \<Rightarrow> Simulation" where
  "updateRequests s = fold updateRequest [0..<length (requests s)] s"

section \<open>updateReplica\<close>

definition updateReplica :: "real \<Rightarrow> SimulationConfig \<Rightarrow> Replica \<Rightarrow> Replica" where
  "updateReplica now cfg rp0 =
     (let rp = (if rep_state rp0 = Starting \<and> truthy (startingAt rp0)
                   \<and> now - orZero (startingAt rp0) \<ge> coldStartTimeMs cfg
                then rp0\<lparr>rep_state := Ready, startingAt := None\<rparr> else rp0)
      in if rep_state rp = Stopping \<and> truthy (stoppingAt rp)
            \<and> now - orZero (stoppingAt rp) \<ge> 1000
         then rp\<lparr>rep_state := Stopped, stoppingAt := None\<rparr> else rp)"

definition updateReplicas :: "Simulation \<Rightarrow> Simulation" where
  "updateReplicas s = s\<lparr>replicas := map (updateReplica (sim_tick s) (config s)) (replicas s)\<rparr>"

definition removeExited :: "Simulation \<Rightarrow> Simulation" where
  "removeExited s =
     s\<lparr>requests := filter (\<lambda>r. req_state r \<noteq> Exiting \<or> req_alpha r > 0.01) (requests s)\<rparr>"

section \<open>Autoscaling\<close>

definition setTargetReplicas :: "int \<Rightarrow> Simulation \<Rightarrow> Simulation" where
  "setTargetReplicas count s =
     s\<lparr>targetReplicas := max 0 (min count (maxReplicas (config s))),
       lastActivityTick := sim_tick s\<rparr>"

definition restartReplica :: "real \<Rightarrow> Replica \<Rightarrow> Replica" where
  "restartReplica now rp = rp\<lparr>rep_state := Starting, startingAt := Some now, currentRequestIds := []\<rparr>"

definition newReplica :: "nat \<Rightarrow> real \<Rightarrow> Replica" where
  "newReplica n now =
     \<lparr>rep_id = n, rep_state = Starting, startingAt = Some now, stoppingAt = None,
      currentRequestIds = []\<rparr>"

definition stopReplica :: "real \<Rightarrow> Replica \<Rightarrow> Replica" where
  "stopReplica now rp =
     rp\<lparr>rep_state := Stopping, stoppingAt := Some now, startingAt := None, currentRequestIds := []\<rparr>"

text \<open>The first loop of \<open>reconcileReplicas\<close>. Only the length of the local array
  \<open>activeReplicas\<close> is read, so the loop carries that length, \<open>n\<close>.\<close>

function scaleUpLoop :: "int \<Rightarrow> Simulation \<Rightarrow> int \<times> Simulation" where
  "scaleUpLoop n s =
     (if n < targetReplicas s
      then (case findIndex (\<lambda>rp. rep_state rp = Stopped) (replicas s) of
              Some j \<Rightarrow> scaleUpLoop (n + 1) (modReplica j (restartReplica (sim_tick s)) s)
            | None \<Rightarrow>
                if int (length (replicas s)) < maxReplicas (config s)
                then scaleUpLoop (n + 1)
                       (s\<lparr>replicas := replicas s @ [newReplica (nextReplicaId s) (sim_tick s)],
                          nextReplicaId := nextReplicaId s + 1\<rparr>)
                else (n, s))
      else (n, s))"
  by pat_completeness auto
termination
  by (relation "measure (\<lambda>(n, s). nat (targetReplicas s - n))") (auto simp: modReplica_def)

text \<open>The second loop. A ready replica is never stopped, hence always a member of
  \<open>activeReplicas\<close>, and the \<open>splice\<close> removes exactly it: the length drops by one.\<close>

function scaleDownLoop :: "int \<Rightarrow> Simulation \<Rightarrow> Simulation" where
  "scaleDownLoop n s =
     (if n > targetReplicas s
      then (case findIndex (\<lambda>rp. rep_state rp = Ready \<and> length (currentRequestIds rp) = 0)
                   (replicas s) of
              Some j \<Rightarrow> scaleDownLoop (n - 1) (modReplica j (stopReplica (sim_tick s)) s)
            | None \<Rightarrow> s)
      else s)"
  by pat_completeness auto
termination
  by (relation "measure (\<lambda>(n, s). nat (n - targetReplicas s))") (auto simp: modReplica_def)

declare scaleUpLoop.simps [simp del]
declare scaleDownLoop.simps [simp del]

definition reconcileReplicas :: "Simulation \<Rightarrow> Simulation" where
  "reconcileReplicas s =
     (let n = int (length (filter (\<lambda>rp. rep_state rp \<noteq> Stopped) (replicas s)));
          (n1, s1) = scaleUpLoop n s
      in scaleDownLoop n1 s1)"

definition waitingCountOf :: "Simulation \<Rightarrow> nat" where
  "waitingCountOf s =
     length (filter (\<lambda>r. req_state r = Queued \<or> req_state r = WaitingForModel) (requests s))"

definition processingCountOf :: "Simulation \<Rightarrow> nat" where
  "processingCountOf s = length (filter (\<lambda>r. req_state r = Processing) (requests s))"

definition totalReplicasOf :: "Simulation \<Rightarrow> nat" where
  "totalReplicasOf s =
     length (filter (\<lambda>rp. rep_state rp = Ready \<or> rep_state rp = Busy) (replicas s))
     + length (filter (\<lambda>rp. rep_state rp = Starting) (replicas s))"

text \<open>The three scaling rules, each as the state after it. In the scale-up rule
  \<open>Math.ceil(load / concurrencyTarget)\<close> is the ceiling of the quotient; with a
  concurrency target of 0 the branch is only entered with a positive load, the quotient
  is \<open>Infinity\<close> and the minimum with \<open>maxReplicas\<close> is \<open>maxReplicas\<close>.\<close>

definition scaleUpRule :: "Simulation \<Rightarrow> Simulation" where
  "scaleUpRule s =
     (let cfg = config s;
          load = int (waitingCountOf s + processingCountOf s);
          currentCapacity = int (totalReplicasOf s) * concurrencyTarget cfg
      in if load > currentCapacity \<and> int (totalReplicasOf s) < maxReplicas cfg
         then (let target = (if concurrencyTarget cfg = 0 then maxReplicas cfg
                             else min (- ((- load) div concurrencyTarget cfg)) (maxReplicas cfg))
               in if target > targetReplicas s then setTargetReplicas target s else s)
         else s)"

definition scaleFromZeroRule :: "Simulation \<Rightarrow> Simulation" where
  "scaleFromZeroRule s =
     (if (waitingCountOf s > 0 \<or> processingCountOf s > 0) \<and> totalReplicasOf s = 0
      then setTargetReplicas (max 1 (minReplicas (config s))) s
      else s)"

definition scaleDownRule :: "Simulation \<Rightarrow> Simulation" where
  "scaleDownRule s =
     (let idleTime = sim_tick s - lastActivityTick s;
          allIdle = list_all (\<lambda>rp. rep_state rp = Ready \<or> rep_state rp = Stopped) (replicas s);
          noRequests = (length (filter (\<lambda>r. req_state r \<noteq> Exiting \<and> req_state r \<noteq> Completed
                                            \<and> req_state r \<noteq> Failed \<and> req_state r \<noteq> RateLimited)
                                  (requests s)) = 0)
      in if allIdle \<and> noRequests \<and> idleTime > scaleDownDelayMs (config s)
         then (if targetReplicas s > minReplicas (config s)
               then setTargetReplicas (minReplicas (config s)) s else s)
         else s)"

definition handleAutoscaling :: "Simulation \<Rightarrow> Simulation" where
  "handleAutoscaling s = reconcileReplicas (scaleDownRule (scaleFromZeroRule (scaleUpRule s)))"

section \<open>Dispatch\<close>

text \<open>The private method \<open>findReadyReplicaRoundRobin\<close> has no caller in the class and is
  left out: the dispatcher does its own scan from the round-robin cursor, \<open>findSlot\<close> below.\<close>

text \<open>Ready and busy replicas sorted by identity, as indices into the replica array.\<close>

definition activeOrder :: "Replica list \<Rightarrow> nat list" where
  "activeOrder rps =
     sort_key (\<lambda>j. rep_id (rps ! j))
       (filter (\<lambda>j. rep_state (rps ! j) = Ready \<or> rep_state (rps ! j) = Busy) [0..<length rps])"

definition startingOrder :: "Replica list \<Rightarrow> nat list" where
  "startingOrder rps =
     sort_key (\<lambda>j. rep_id (rps ! j))
       (filter (\<lambda>j. rep_state (rps ! j) = Starting) [0..<length rps])"

text \<open>The inner loop of the ready-capacity pass: the first position of \<open>activeReplicas\<close>,
  scanning from the round-robin cursor, whose replica has spare capacity.\<close>

definition findSlot :: "nat list \<Rightarrow> Simulation \<Rightarrow> nat option" where
  "findSlot act s =
     List.find
       (\<lambda>replicaIndex. int (length (currentRequestIds (replicas s ! (act ! replicaIndex))))
                          < concurrencyTarget (config s))
       (map (\<lambda>i. (roundRobinIndex s + i) mod length act) [0..<length act])"

text \<open>The body of the inner \<open>if\<close>: request \<open>ri\<close> is given to the replica at position
  \<open>replicaIndex\<close> of \<open>activeReplicas\<close>.\<close>

definition assignTo :: "nat list \<Rightarrow> nat \<Rightarrow> nat \<Rightarrow> Simulation \<Rightarrow> Simulation" where
  "assignTo act ri replicaIndex s =
     (let j = act ! replicaIndex;
          rid = rep_id (replicas s ! j);
          s1 = modRequest ri
                 (\<lambda>r. r\<lparr>req_state := Processing, processStartedAt := Some (sim_tick s),
                         processorPickedAt := Some (sim_tick s), assignedReplica := Some rid\<rparr>) s;
          s2 = modReplica j
                 (\<lambda>rp. recomputeState (concurrencyTarget (config s))
                          (rp\<lparr>currentRequestIds := currentRequestIds rp @ [req_id (requests s ! ri)]\<rparr>)) s1;
          s3 = modRequest ri (\<lambda>r. r\<lparr>req_targetX := getReplicaX\<rparr>) s2
      in repositionQueue (s3\<lparr>roundRobinIndex := (replicaIndex + 1) mod length act\<rparr>))"

text \<open>The outer loop of the ready-capacity pass over the sorted queued requests; it
  stops at the first request that finds no replica.\<close>

fun assignLoop :: "nat list \<Rightarrow> nat list \<Rightarrow> Simulation \<Rightarrow> Simulation" where
  "assignLoop act [] s = s"
| "assignLoop act (ri # rest) s =
     (case findSlot act s of
        None \<Rightarrow> s
      | Some replicaIndex \<Rightarrow> assignLoop act rest (assignTo act ri replicaIndex s))"

text \<open>\<open>assignToStartingReplicas\<close>: \<open>queuedLength\<close> is \<open>queued.length\<close>, \<open>startingIndex\<close>
  the running counter.\<close>

definition waitingForReplica :: "nat \<Rightarrow> Simulation \<Rightarrow> nat" where
  "waitingForReplica rid s =
     length (filter (\<lambda>r. assignedReplica r = Some rid \<and> req_state r = WaitingForModel) (requests s))"

definition ceilDiv :: "nat \<Rightarrow> nat \<Rightarrow> nat" where
  "ceilDiv a b = (a + b - 1) div b"

text \<open>The body of the \<open>if\<close> in the loop of \<open>assignToStartingReplicas\<close>: request
  \<open>ri\<close> waits for the starting replica with identity \<open>rid\<close>.\<close>

definition parkOnStarting :: "nat \<Rightarrow> nat \<Rightarrow> nat \<Rightarrow> Simulation \<Rightarrow> Simulation" where
  "parkOnStarting ri rid waitingForThisReplica s =
     repositionQueue
       (modRequest ri
          (\<lambda>r. r\<lparr>req_state := WaitingForModel,
                  processorPickedAt := Some (sim_tick s),
                  assignedReplica := Some rid,
                  req_targetX := STAGE_X_model - 20 - real waitingForThisReplica * 25\<rparr>) s)"

fun startingLoop :: "nat list \<Rightarrow> nat \<Rightarrow> nat \<Rightarrow> nat list \<Rightarrow> Simulation \<Rightarrow> Simulation" where
  "startingLoop starting queuedLength startingIndex [] s = s"
| "startingLoop starting queuedLength startingIndex (ri # rest) s =
     (let j = starting ! (startingIndex mod length starting);
          rid = rep_id (replicas s ! j);
          waitingForThisReplica = waitingForReplica rid s;
          s1 = (if waitingForThisReplica < ceilDiv queuedLength (length starting) + 1
                then parkOnStarting ri rid waitingForThisReplica s
                else s)
      in startingLoop starting queuedLength (startingIndex + 1) rest s1)"

definition assignToStartingReplicas :: "nat list \<Rightarrow> Simulation \<Rightarrow> Simulation" where
  "assignToStartingReplicas queued s =
     (if length queued = 0 then s
      else (let starting = startingOrder (replicas s)
            in if length starting = 0 then s
               else startingLoop starting (length queued) 0 queued s))"

definition stillWaiting :: "Simulation \<Rightarrow> nat list" where
  "stillWaiting s = filter (\<lambda>i. req_state (requests s ! i) = Queued) [0..<length (requests s)]"

definition tryAssignToReplicas :: "Simulation \<Rightarrow> Simulation" where
  "tryAssignToReplicas s =
     (let waiting = queueOrder (requests s);
          act = activeOrder (replicas s)
      in if length act = 0 then assignToStartingReplicas waiting s
         else (let s1 = assignLoop act waiting s
               in assignToStartingReplicas (stillWaiting s1) s1))"

section \<open>Metrics\<close>

definition updateMetrics :: "Simulation \<Rightarrow> Simulation" where
  "updateMetrics s =
     s\<lparr>metrics := (metrics s)
         \<lparr>m_queued := length (filter (\<lambda>r. req_state r = Queued \<or> req_state r = WaitingForModel) (requests s)),
          m_processing := length (filter (\<lambda>r. req_state r = Processing) (requests s)),
          m_replicas := length (filter (\<lambda>rp. rep_state rp \<noteq> Stopped) (replicas s)),
          m_readyReplicas := length (filter (\<lambda>rp. rep_state rp = Ready) (replicas s))\<rparr>\<rparr>"

definition initialMetrics :: Metrics where
  "initialMetrics =
     \<lparr>m_queued = 0, m_processing = 0, m_completed = 0, m_failed = 0, m_expired = 0,
      m_replicas = 0, m_readyReplicas = 0\<rparr>"

section \<open>The step and the public operations\<close>

definition tick :: "real \<Rightarrow> Simulation \<Rightarrow> Simulation" where
  "tick deltaMs s =
     (if paused s then s
      else updateMetrics (tryAssignToReplicas (handleAutoscaling (removeExited (updateReplicas
             (updateRequests (s\<lparr>sim_tick := sim_tick s + deltaMs * speed s\<rparr>)))))))"

definition addRequest :: "nat \<Rightarrow> Simulation \<Rightarrow> Simulation" where
  "addRequest p s =
     s\<lparr>requests := requests s @
          [\<lparr>req_id = nextId s, req_state = Entering, priority = p, createdAt = sim_tick s,
            queuedAt = None, processorPickedAt = None, processStartedAt = None,
            completedAt = None, assignedReplica = None,
            req_x = STAGE_X_enter, req_targetX = STAGE_X_gateway, req_alpha = 1\<rparr>],
       nextId := nextId s + 1,
       lastActivityTick := sim_tick s\<rparr>"

definition setSpeed :: "real \<Rightarrow> Simulation \<Rightarrow> Simulation" where
  "setSpeed v s = s\<lparr>speed := max 0.1 (min 10 v)\<rparr>"

definition setPaused :: "bool \<Rightarrow> Simulation \<Rightarrow> Simulation" where
  "setPaused b s = s\<lparr>paused := b\<rparr>"

definition togglePause :: "Simulation \<Rightarrow> Simulation" where
  "togglePause s = s\<lparr>paused := \<not> paused s\<rparr>"

definition reset :: "Simulation \<Rightarrow> Simulation" where
  "reset s =
     (let s1 = s\<lparr>sim_tick := 0, requests := [], replicas := [], metrics := initialMetrics,
                 targetReplicas := minReplicas (config s), nextId := 0, nextReplicaId := 0,
                 lastActivityTick := 0, roundRobinIndex := 0\<rparr>
      in if minReplicas (config s) > 0 then setTargetReplicas (minReplicas (config s)) s1 else s1)"

text \<open>A \<open>Partial<SimulationConfig>\<close> is a list of field assignments, merged in order.\<close>

datatype ConfigField =
  ModelProcessingTimeMs real | ColdStartTimeMs real | PredictConcurrency int
  | MinReplicas int | MaxReplicas int | ConcurrencyTarget int | ScaleDownDelayMs real
  | AutoscalingWindowMs real | MaxQueueSize int | MaxTimeInQueueMs real | WebhookTimeMs real

fun assignField :: "ConfigField \<Rightarrow> SimulationConfig \<Rightarrow> SimulationConfig" where
  "assignField (ModelProcessingTimeMs v) c = c\<lparr>modelProcessingTimeMs := v\<rparr>"
| "assignField (ColdStartTimeMs v) c = c\<lparr>coldStartTimeMs := v\<rparr>"
| "assignField (PredictConcurrency v) c = c\<lparr>predictConcurrency := v\<rparr>"
| "assignField (MinReplicas v) c = c\<lparr>minReplicas := v\<rparr>"
| "assignField (MaxReplicas v) c = c\<lparr>maxReplicas := v\<rparr>"
| "assignField (ConcurrencyTarget v) c = c\<lparr>concurrencyTarget := v\<rparr>"
| "assignField (ScaleDownDelayMs v) c = c\<lparr>scaleDownDelayMs := v\<rparr>"
| "assignField (AutoscalingWindowMs v) c = c\<lparr>autoscalingWindowMs := v\<rparr>"
| "assignField (MaxQueueSize v) c = c\<lparr>maxQueueSize := v\<rparr>"
| "assignField (MaxTimeInQueueMs v) c = c\<lparr>maxTimeInQueueMs := v\<rparr>"
| "assignField (WebhookTimeMs v) c = c\<lparr>webhookTimeMs := v\<rparr>"

definition setConfig :: "ConfigField list \<Rightarrow> Simulation \<Rightarrow> Simulation" where
  "setConfig partial s = s\<lparr>config := fold assignField partial (config s)\<rparr>"

definition recordCompleted :: "Simulation \<Rightarrow> Simulation" where
  "recordCompleted s = s\<lparr>metrics := (metrics s)\<lparr>m_completed := m_completed (metrics s) + 1\<rparr>\<rparr>"

definition recordFailed :: "Simulation \<Rightarrow> Simulation" where
  "recordFailed s = s\<lparr>metrics := (metrics s)\<lparr>m_failed := m_failed (metrics s) + 1\<rparr>\<rparr>"

definition recordExpired :: "Simulation \<Rightarrow> Simulation" where
  "recordExpired s = s\<lparr>metrics := (metrics s)\<lparr>m_expired := m_expired (metrics s) + 1\<rparr>\<rparr>"

text \<open>The constructor, given the merged configuration.\<close>

definition newSimulation :: "SimulationConfig \<Rightarrow> Simulation" where
  "newSimulation mergedConfig =
     (let s = \<lparr>sim_tick = 0, requests = [], replicas = [], metrics = initialMetrics,
               config = mergedConfig, targetReplicas = minReplicas mergedConfig,
               speed = 1, paused = False, nextId = 0, nextReplicaId = 0,
               lastActivityTick = 0, roundRobinIndex = 0\<rparr>
      in if minReplicas mergedConfig > 0 then setTargetReplicas (minReplicas mergedConfig) s else s)"

text \<open>The public operations that change the engine. \<open>addBurst\<close> schedules
  \<open>addRequest\<close> calls on timers, so a burst is a number of \<open>AddRequest\<close> operations
  among the others; the getters change nothing.\<close>

datatype Op =
  Tick real | AddRequest nat | SetTargetReplicas int | SetSpeed real | SetPaused bool
  | TogglePause | Reset | SetConfig "ConfigField list"
  | RecordCompleted | RecordFailed | RecordExpired

fun applyOp :: "Op \<Rightarrow> Simulation \<Rightarrow> Simulation" where
  "applyOp (Tick deltaMs) s = tick deltaMs s"
| "applyOp (AddRequest p) s = addRequest p s"
| "applyOp (SetTargetReplicas n) s = setTargetReplicas n s"
| "applyOp (SetSpeed v) s = setSpeed v s"
| "applyOp (SetPaused b) s = setPaused b s"
| "applyOp TogglePause s = togglePause s"
| "applyOp Reset s = reset s"
| "applyOp (SetConfig partial) s = setConfig partial s"
| "applyOp RecordCompleted s = recordCompleted s"
| "applyOp RecordFailed s = recordFailed s"
| "applyOp RecordExpired s = recordExpired s"

definition run :: "Op list \<Rightarrow> Simulation \<Rightarrow> Simulation" where
  "run ops s = fold applyOp ops s"

fun isSetConfig :: "Op \<Rightarrow> bool" where
  "isSetConfig (SetConfig partial) = True"
| "isSetConfig _ = False"

section \<open>Auxiliary definitions for the proofs\<close>

text \<open>A request with its \<open>targetX\<close> blanked: \<open>repositionQueue\<close> changes nothing else.\<close>

definition eraseTargetX :: "Request \<Rightarrow> Request" where
  "eraseTargetX r = r\<lparr>req_targetX := 0\<rparr>"

named_theorems upd_defs

text \<open>A request parked on replica 0 since tick 5000, and that replica, now ready, at
  tick 20000 under the default configuration.\<close>

definition exampleWaiting :: Simulation where
  "exampleWaiting =
     (newSimulation DEFAULT_CONFIG)
       \<lparr>sim_tick := 20000,
        requests := [\<lparr>req_id = 0, req_state = WaitingForModel, priority = 1, createdAt = 0,
                      queuedAt = Some 4000, processorPickedAt = Some 5000,
                      processStartedAt = None, completedAt = None, assignedReplica = Some 0,
                      req_x = 400, req_targetX = 400, req_alpha = 1\<rparr>],
        replicas := [\<lparr>rep_id = 0, rep_state = Ready, startingAt = None, stoppingAt = None,
                      currentRequestIds = []\<rparr>],
        targetReplicas := 1, nextId := 1, nextReplicaId := 1\<rparr>"

definition sameButReplicas :: "Simulation \<Rightarrow> Simulation \<Rightarrow> bool" where
  "sameButReplicas s s' \<longleftrightarrow>
     config s' = config s \<and> sim_tick s' = sim_tick s \<and> requests s' = requests s
     \<and> metrics s' = metrics s \<and> targetReplicas s' = targetReplicas s
     \<and> lastActivityTick s' = lastActivityTick s \<and> nextId s' = nextId s
     \<and> roundRobinIndex s' = roundRobinIndex s \<and> paused s' = paused s \<and> speed s' = speed s"

definition sameButCollections :: "Simulation \<Rightarrow> Simulation \<Rightarrow> bool" where
  "sameButCollections s s' \<longleftrightarrow>
     config s' = config s \<and> sim_tick s' = sim_tick s \<and> metrics s' = metrics s
     \<and> targetReplicas s' = targetReplicas s \<and> lastActivityTick s' = lastActivityTick s
     \<and> nextId s' = nextId s \<and> nextReplicaId s' = nextReplicaId s
     \<and> paused s' = paused s \<and> speed s' = speed s
     \<and> length (requests s') = length (requests s) \<and> length (replicas s') = length (replicas s)"

text \<open>The state on which \<open>updateMetrics\<close> runs inside \<open>tick\<close>.\<close>

definition beforeMetrics :: "real \<Rightarrow> Simulation \<Rightarrow> Simulation" where
  "beforeMetrics deltaMs s =
     tryAssignToReplicas (handleAutoscaling (removeExited (updateReplicas
       (updateRequests (s\<lparr>sim_tick := sim_tick s + deltaMs * speed s\<rparr>)))))"

named_theorems sim_eval

text \<open>\<open>n\<close> calls of \<open>tick\<close> with the same delta.\<close>

fun advanceSteps :: "nat \<Rightarrow> real \<Rightarrow> Simulation \<Rightarrow> Simulation" where
  "advanceSteps 0 d s = s"
| "advanceSteps (Suc n) d s = advanceSteps n d (tick d s)"

text \<open>A request whose delivery is due: processing started at 17000, it is now 20000.\<close>

definition exampleDelivering :: Simulation where
  "exampleDelivering =
     (newSimulation DEFAULT_CONFIG)
       \<lparr>sim_tick := 20000,
        requests := [\<lparr>req_id = 0, req_state = Delivering, priority = 1, createdAt = 0,
                      queuedAt = Some 4000, processorPickedAt = Some 5000,
                      processStartedAt = Some 17000, completedAt = None, assignedReplica = Some 0,
                      req_x = 718, req_targetX = 720, req_alpha = 1\<rparr>],
        replicas := [\<lparr>rep_id = 0, rep_state = Ready, startingAt = None, stoppingAt = None,
                      currentRequestIds = []\<rparr>],
        targetReplicas := 1, nextId := 1, nextReplicaId := 1\<rparr>"

definition okRequest :: "Request \<Rightarrow> bool" where
  "okRequest r \<longleftrightarrow> req_state r \<noteq> Failed \<and> req_state r \<noteq> RateLimited"

definition noFailed :: "Simulation \<Rightarrow> bool" where
  "noFailed s \<longleftrightarrow> list_all okRequest (requests s)"

definition capOk :: "int \<Rightarrow> Replica \<Rightarrow> bool" where
  "capOk ct rp \<longleftrightarrow>
     int (length (currentRequestIds rp)) \<le> ct
     \<and> (rep_state rp = Starting \<or> rep_state rp = Ready \<longrightarrow> int (length (currentRequestIds rp)) < ct)"

definition capInv :: "Simulation \<Rightarrow> bool" where
  "capInv s \<longleftrightarrow>
     1 \<le> concurrencyTarget (config s)
     \<and> (\<forall>j < length (replicas s). capOk (concurrencyTarget (config s)) (replicas s ! j))"

definition poolInv :: "Simulation \<Rightarrow> bool" where
  "poolInv s \<longleftrightarrow>
     int (length (replicas s)) \<le> maxReplicas (config s) \<and> nextReplicaId s = length (replicas s)"

text \<open>Four requests admitted together and queued, two idle ready replicas, and a
  concurrency target of 2.\<close>

definition exampleFour :: Simulation where
  "exampleFour =
     (newSimulation (DEFAULT_CONFIG\<lparr>concurrencyTarget := 2\<rparr>))
       \<lparr>sim_tick := 600,
        requests := map (\<lambda>n. \<lparr>req_id = n, req_state = Queued, priority = 1, createdAt = 100,
                                queuedAt = Some 600, processorPickedAt = None,
                                processStartedAt = None, completedAt = None,
                                assignedReplica = None,
                                req_x = 79, req_targetX = 180, req_alpha = 1\<rparr>) [0, 1, 2, 3],
        replicas := map (\<lambda>n. \<lparr>rep_id = n, rep_state = Ready, startingAt = None,
                                stoppingAt = None, currentRequestIds = []\<rparr>) [0, 1],
        targetReplicas := 2, nextId := 4, nextReplicaId := 2\<rparr>"

text \<open>Three requests admitted together with the same priority and queued, and one idle
  ready replica with room for one (the default concurrency target).\<close>

definition exampleTie :: Simulation where
  "exampleTie =
     (newSimulation DEFAULT_CONFIG)
       \<lparr>sim_tick := 600,
        requests := map (\<lambda>n. \<lparr>req_id = n, req_state = Queued, priority = 1, createdAt = 100,
                                queuedAt = Some 600, processorPickedAt = None,
                                processStartedAt = None, completedAt = None,
                                assignedReplica = None,
                                req_x = 79, req_targetX = 180, req_alpha = 1\<rparr>) [0, 1, 2],
        replicas := [\<lparr>rep_id = 0, rep_state = Ready, startingAt = None,
                      stoppingAt = None, currentRequestIds = []\<rparr>],
        targetReplicas := 1, nextId := 3, nextReplicaId := 1\<rparr>"

text \<open>The ready-capacity pass of \<open>tryAssignToReplicas\<close>: its \<open>for\<close> loop over the
  sorted queued requests.\<close>

definition readyCapacityPass :: "Simulation \<Rightarrow> Simulation" where
  "readyCapacityPass s = assignLoop (activeOrder (replicas s)) (queueOrder (requests s)) s"

text \<open>The order in which the pass takes two queued requests: by priority, then by
  creation time, then (the sort is stable) by position in the request array.\<close>

definition passBefore :: "Request list \<Rightarrow> nat \<Rightarrow> nat \<Rightarrow> bool" where
  "passBefore rs a b \<longleftrightarrow>
     priority (rs ! a) < priority (rs ! b)
     \<or> (priority (rs ! a) = priority (rs ! b)
        \<and> (createdAt (rs ! a) < createdAt (rs ! b)
           \<or> (createdAt (rs ! a) = createdAt (rs ! b) \<and> a < b)))"

text \<open>The order a stable sort by \<open>f\<close> gives to indices that come in increasing order.\<close>

definition stableBefore :: "(nat \<Rightarrow> 'k::linorder) \<Rightarrow> nat \<Rightarrow> nat \<Rightarrow> bool" where
  "stableBefore f a b \<longleftrightarrow> f a < f b \<or> (f a = f b \<and> a < b)"

text \<open>The number of requests replica \<open>j\<close> claims.\<close>

definition loadOf :: "Simulation \<Rightarrow> nat \<Rightarrow> nat" where
  "loadOf s j = length (currentRequestIds (replicas s ! j))"

text \<open>The state on which the dispatcher runs inside \<open>tick\<close>.\<close>

definition beforeDispatch :: "real \<Rightarrow> Simulation \<Rightarrow> Simulation" where
  "beforeDispatch deltaMs s =
     handleAutoscaling (removeExited (updateReplicas
       (updateRequests (s\<lparr>sim_tick := sim_tick s + deltaMs * speed s\<rparr>))))"

text \<open>A request that is queued has not waited longer than \<open>maxTimeInQueueMs\<close>.\<close>

definition withinTtl :: "Simulation \<Rightarrow> Request \<Rightarrow> bool" where
  "withinTtl s r \<longleftrightarrow>
     (req_state r = Queued \<longrightarrow> sim_tick s - orZero (queuedAt r) \<le> maxTimeInQueueMs (config s))"

text \<open>The conditions under which each scaling rule of \<open>handleAutoscaling\<close> calls
  \<open>setTargetReplicas\<close>, and the target the scale-up rule passes.\<close>

definition scaleUpTarget :: "Simulation \<Rightarrow> int" where
  "scaleUpTarget s =
     (if concurrencyTarget (config s) = 0 then maxReplicas (config s)
      else min (- ((- int (waitingCountOf s + processingCountOf s)) div concurrencyTarget (config s)))
             (maxReplicas (config s)))"

definition scaleUpCalls :: "Simulation \<Rightarrow> bool" where
  "scaleUpCalls s \<longleftrightarrow>
     int (waitingCountOf s + processingCountOf s) > int (totalReplicasOf s) * concurrencyTarget (config s)
     \<and> int (totalReplicasOf s) < maxReplicas (config s)
     \<and> scaleUpTarget s > targetReplicas s"

definition scaleFromZeroCalls :: "Simulation \<Rightarrow> bool" where
  "scaleFromZeroCalls s \<longleftrightarrow>
     (waitingCountOf s > 0 \<or> processingCountOf s > 0) \<and> totalReplicasOf s = 0"

definition scaleDownCalls :: "Simulation \<Rightarrow> bool" where
  "scaleDownCalls s \<longleftrightarrow>
     list_all (\<lambda>rp. rep_state rp = Ready \<or> rep_state rp = Stopped) (replicas s)
     \<and> length (filter (\<lambda>r. req_state r \<noteq> Exiting \<and> req_state r \<noteq> Completed
                            \<and> req_state r \<noteq> Failed \<and> req_state r \<noteq> RateLimited) (requests s)) = 0
     \<and> sim_tick s - lastActivityTick s > scaleDownDelayMs (config s)
     \<and> targetReplicas s > minReplicas (config s)"

definition autoscalerCalls :: "Simulation \<Rightarrow> bool" where
  "autoscalerCalls s \<longleftrightarrow>
     scaleUpCalls s \<or> scaleFromZeroCalls s \<or> scaleDownCalls (scaleFromZeroRule (scaleUpRule s))"

text \<open>What \<open>updateRequest\<close> on request \<open>i\<close> counts as activity: the request is
  admitted to the queue, or its processing is complete.\<close>

definition activityAt :: "Simulation \<Rightarrow> nat \<Rightarrow> bool" where
  "activityAt s i \<longleftrightarrow>
     req_state (requests s ! i) = Validating
     \<or> (req_state (requests s ! i) = Processing
        \<and> sim_tick s - orZero (processStartedAt (requests s ! i)) > modelProcessingTimeMs (config s))"

text \<open>The state on which \<open>handleAutoscaling\<close> runs inside \<open>tick\<close>.\<close>

definition beforeAutoscaling :: "real \<Rightarrow> Simulation \<Rightarrow> Simulation" where
  "beforeAutoscaling deltaMs s =
     removeExited (updateReplicas (updateRequests (s\<lparr>sim_tick := sim_tick s + deltaMs * speed s\<rparr>)))"

text \<open>Lower bounds on the clock that every state of a run obeys: a replica that has left
  \<open>starting\<close> is seen only once the clock has reached the cold-start time, a request in
  \<open>processing\<close> started no earlier than that, one in \<open>delivering\<close> is seen only
  after its processing time, one in \<open>completed\<close> completed only after its delivery
  time as well.\<close>

definition timelyReplica :: "Simulation \<Rightarrow> Replica \<Rightarrow> bool" where
  "timelyReplica s rp \<longleftrightarrow>
     (rep_state rp = Starting \<longrightarrow> 0 \<le> orZero (startingAt rp))
     \<and> (rep_state rp \<noteq> Starting \<longrightarrow> coldStartTimeMs (config s) \<le> sim_tick s)"

definition timelyRequest :: "Simulation \<Rightarrow> Request \<Rightarrow> bool" where
  "timelyRequest s r \<longleftrightarrow>
     (req_state r = Processing \<longrightarrow>
        coldStartTimeMs (config s) \<le> orZero (processStartedAt r)
        \<and> orZero (processStartedAt r) \<le> sim_tick s)
     \<and> (req_state r = Delivering \<longrightarrow>
        coldStartTimeMs (config s) \<le> orZero (processStartedAt r)
        \<and> orZero (processStartedAt r) + modelProcessingTimeMs (config s) < sim_tick s)
     \<and> (req_state r = Completed \<longrightarrow>
        coldStartTimeMs (config s) \<le> orZero (processStartedAt r)
        \<and> orZero (processStartedAt r) + modelProcessingTimeMs (config s) + webhookTimeMs (config s)
            < orZero (completedAt r)
        \<and> orZero (completedAt r) \<le> sim_tick s)"

definition timelyReplicas :: "Simulation \<Rightarrow> bool" where
  "timelyReplicas s \<longleftrightarrow> (\<forall>j < length (replicas s). timelyReplica s (replicas s ! j))"

definition timelyRequests :: "Simulation \<Rightarrow> bool" where
  "timelyRequests s \<longleftrightarrow> (\<forall>i < length (requests s). timelyRequest s (requests s ! i))"

definition timely :: "Simulation \<Rightarrow> bool" where
  "timely s \<longleftrightarrow> 0 \<le> sim_tick s \<and> 0 \<le> speed s \<and> timelyReplicas s \<and> timelyRequests s"

text \<open>What the cold-start scenario watches of a state: per request its state and the
  ticks it was queued, started processing and completed at; per replica its state and
  the tick it started at.\<close>

type_synonym Snapshot =
  "(RequestState \<times> real option \<times> real option \<times> real option) list \<times> (ReplicaState \<times> real option) list"

definition snapshot :: "Simulation \<Rightarrow> Snapshot" where
  "snapshot s =
     (map (\<lambda>r. (req_state r, queuedAt r, processStartedAt r, completedAt r)) (requests s),
      map (\<lambda>rp. (rep_state rp, startingAt rp)) (replicas s))"

text \<open>The snapshots of the state before and after each of \<open>n\<close> calls of \<open>tick\<close>
  with the same delta.\<close>

fun observe :: "nat \<Rightarrow> real \<Rightarrow> Simulation \<Rightarrow> Snapshot list" where
  "observe 0 d s = [snapshot s]"
| "observe (Suc n) d s = snapshot s # observe n d (tick d s)"

text \<open>A list as its runs of equal consecutive elements, each with its length.\<close>

fun runLengths :: "'a list \<Rightarrow> ('a \<times> nat) list" where
  "runLengths [] = []"
| "runLengths (y # ys) =
     (case runLengths ys of
        [] \<Rightarrow> [(y, 1)]
      | (z, n) # rest \<Rightarrow> if y = z then (z, Suc n) # rest else (y, 1) # (z, n) # rest)"

text \<open>The inverse of \<open>runLengths\<close>.\<close>

fun expand :: "('a \<times> nat) list \<Rightarrow> 'a list" where
  "expand [] = []"
| "expand ((y, n) # rest) = replicate n y @ expand rest"

section \<open>Basic lemmas\<close>


lemma findIndex_Some: "findIndex P xs = Some i \<Longrightarrow> i < length xs \<and> P (xs ! i)"
proof (induction xs arbitrary: i)
  case Nil
  then show ?case by simp
next
  case (Cons y ys)
  then show ?case by (auto split: if_splits)
qed

lemma findIndex_None: "findIndex P xs = None \<Longrightarrow> \<forall>y \<in> set xs. \<not> P y"
  by (induction xs) (auto split: if_splits)

lemma modRequest_fields [simp]:
  "replicas (modRequest i f s) = replicas s"
  "config (modRequest i f s) = config s"
  "sim_tick (modRequest i f s) = sim_tick s"
  "metrics (modRequest i f s) = metrics s"
  "targetReplicas (modRequest i f s) = targetReplicas s"
  "lastActivityTick (modRequest i f s) = lastActivityTick s"
  "roundRobinIndex (modRequest i f s) = roundRobinIndex s"
  "nextReplicaId (modRequest i f s) = nextReplicaId s"
  "nextId (modRequest i f s) = nextId s"
  "paused (modRequest i f s) = paused s"
  "speed (modRequest i f s) = speed s"
  "length (requests (modRequest i f s)) = length (requests s)"
  by (simp_all add: modRequest_def)

lemma modReplica_fields [simp]:
  "requests (modReplica j f s) = requests s"
  "config (modReplica j f s) = config s"
  "sim_tick (modReplica j f s) = sim_tick s"
  "metrics (modReplica j f s) = metrics s"
  "targetReplicas (modReplica j f s) = targetReplicas s"
  "lastActivityTick (modReplica j f s) = lastActivityTick s"
  "roundRobinIndex (modReplica j f s) = roundRobinIndex s"
  "nextReplicaId (modReplica j f s) = nextReplicaId s"
  "nextId (modReplica j f s) = nextId s"
  "paused (modReplica j f s) = paused s"
  "speed (modReplica j f s) = speed s"
  "length (replicas (modReplica j f s)) = length (replicas s)"
  by (simp_all add: modReplica_def)

lemma modRequest_nth_same [simp]:
  "i < length (requests s) \<Longrightarrow> requests (modRequest i f s) ! i = f (requests s ! i)"
  by (simp add: modRequest_def)

lemma modRequest_nth_other [simp]:
  "k \<noteq> i \<Longrightarrow> requests (modRequest i f s) ! k = requests s ! k"
  by (simp add: modRequest_def)

lemma modReplica_nth_same [simp]:
  "j < length (replicas s) \<Longrightarrow> replicas (modReplica j f s) ! j = f (replicas s ! j)"
  by (simp add: modReplica_def)

lemma modReplica_nth_other [simp]:
  "k \<noteq> j \<Longrightarrow> replicas (modReplica j f s) ! k = replicas s ! k"
  by (simp add: modReplica_def)

lemma repositionQueue_fields [simp]:
  "replicas (repositionQueue s) = replicas s"
  "config (repositionQueue s) = config s"
  "sim_tick (repositionQueue s) = sim_tick s"
  "metrics (repositionQueue s) = metrics s"
  "targetReplicas (repositionQueue s) = targetReplicas s"
  "lastActivityTick (repositionQueue s) = lastActivityTick s"
  "roundRobinIndex (repositionQueue s) = roundRobinIndex s"
  "nextReplicaId (repositionQueue s) = nextReplicaId s"
  "nextId (repositionQueue s) = nextId s"
  "paused (repositionQueue s) = paused s"
  "speed (repositionQueue s) = speed s"
  by (simp_all add: repositionQueue_def Let_def)


lemma reposition_fold_erase:
  "map eraseTargetX (fold (\<lambda>(index, i) acc. acc[i := (acc ! i)\<lparr>req_targetX := g index\<rparr>]) xs rs)
     = map eraseTargetX rs"
proof (induction xs arbitrary: rs)
  case Nil
  then show ?case by simp
next
  case (Cons p xs)
  obtain index i where p: "p = (index, i)" by (cases p)
  have "map eraseTargetX (rs[i := (rs ! i)\<lparr>req_targetX := g index\<rparr>]) = map eraseTargetX rs"
  proof (cases "i < length rs")
    case True
    then show ?thesis
      by (simp add: map_update eraseTargetX_def list_update_same_conv)
  next
    case False
    then have "rs[i := (rs ! i)\<lparr>req_targetX := g index\<rparr>] = rs"
      by (intro list_update_beyond) simp
    then show ?thesis by (rule arg_cong)
  qed
  with Cons p show ?case by simp
qed

lemma repositionQueue_erase:
  "map eraseTargetX (requests (repositionQueue s)) = map eraseTargetX (requests s)"
  by (simp add: repositionQueue_def Let_def reposition_fold_erase)

lemma repositionQueue_length [simp]:
  "length (requests (repositionQueue s)) = length (requests s)"
  using repositionQueue_erase [of s] by (metis length_map)

lemma repositionQueue_nth_erase:
  "i < length (requests s) \<Longrightarrow>
     eraseTargetX (requests (repositionQueue s) ! i) = eraseTargetX (requests s ! i)"
  using repositionQueue_erase [of s] by (metis length_map nth_map repositionQueue_length)

lemma repositionQueue_nth [simp]:
  assumes "i < length (requests s)"
  shows "req_state (requests (repositionQueue s) ! i) = req_state (requests s ! i)"
    and "req_id (requests (repositionQueue s) ! i) = req_id (requests s ! i)"
    and "processStartedAt (requests (repositionQueue s) ! i) = processStartedAt (requests s ! i)"
    and "processorPickedAt (requests (repositionQueue s) ! i) = processorPickedAt (requests s ! i)"
    and "queuedAt (requests (repositionQueue s) ! i) = queuedAt (requests s ! i)"
    and "assignedReplica (requests (repositionQueue s) ! i) = assignedReplica (requests s ! i)"
    and "priority (requests (repositionQueue s) ! i) = priority (requests s ! i)"
    and "createdAt (requests (repositionQueue s) ! i) = createdAt (requests s ! i)"
    and "completedAt (requests (repositionQueue s) ! i) = completedAt (requests s ! i)"
    and "req_x (requests (repositionQueue s) ! i) = req_x (requests s ! i)"
    and "req_alpha (requests (repositionQueue s) ! i) = req_alpha (requests s ! i)"
  using repositionQueue_nth_erase [OF assms]
  by (auto simp: eraseTargetX_def dest: arg_cong [where f = req_state]
      arg_cong [where f = req_id] arg_cong [where f = processStartedAt]
      arg_cong [where f = processorPickedAt] arg_cong [where f = queuedAt]
      arg_cong [where f = assignedReplica] arg_cong [where f = priority]
      arg_cong [where f = createdAt] arg_cong [where f = completedAt]
      arg_cong [where f = req_x] arg_cong [where f = req_alpha])

lemma eraseTargetX_update [simp]: "eraseTargetX (r\<lparr>req_targetX := v\<rparr>) = eraseTargetX r"
  by (simp add: eraseTargetX_def)

lemma eraseTargetX_fields:
  assumes "eraseTargetX r' = eraseTargetX r"
  shows "req_state r' = req_state r" "req_id r' = req_id r" "queuedAt r' = queuedAt r"
    "processStartedAt r' = processStartedAt r" "processorPickedAt r' = processorPickedAt r"
    "assignedReplica r' = assignedReplica r" "priority r' = priority r"
    "createdAt r' = createdAt r"
proof -
  have "req_state (eraseTargetX r') = req_state (eraseTargetX r)" using assms by simp
  then show "req_state r' = req_state r" by (simp add: eraseTargetX_def)
  have "req_id (eraseTargetX r') = req_id (eraseTargetX r)" using assms by simp
  then show "req_id r' = req_id r" by (simp add: eraseTargetX_def)
  have "queuedAt (eraseTargetX r') = queuedAt (eraseTargetX r)" using assms by simp
  then show "queuedAt r' = queuedAt r" by (simp add: eraseTargetX_def)
  have "processStartedAt (eraseTargetX r') = processStartedAt (eraseTargetX r)" using assms by simp
  then show "processStartedAt r' = processStartedAt r" by (simp add: eraseTargetX_def)
  have "processorPickedAt (eraseTargetX r') = processorPickedAt (eraseTargetX r)" using assms by simp
  then show "processorPickedAt r' = processorPickedAt r" by (simp add: eraseTargetX_def)
  have "assignedReplica (eraseTargetX r') = assignedReplica (eraseTargetX r)" using assms by simp
  then show "assignedReplica r' = assignedReplica r" by (simp add: eraseTargetX_def)
  have "priority (eraseTargetX r') = priority (eraseTargetX r)" using assms by simp
  then show "priority r' = priority r" by (simp add: eraseTargetX_def)
  have "createdAt (eraseTargetX r') = createdAt (eraseTargetX r)" using assms by simp
  then show "createdAt r' = createdAt r" by (simp add: eraseTargetX_def)
qed


lemmas [upd_defs] = updEntering_def updValidating_def updQueued_def updWaitingForModel_def
  updProcessing_def updDelivering_def updCompleted_def updFailed_def updExpired_def

lemma updateRequest_length [simp]:
  "length (requests (updateRequest k s)) = length (requests s)"
  by (simp add: updateRequest_def upd_defs Let_def split: RequestState.splits option.splits)

lemma updateRequest_frame [simp]:
  "config (updateRequest k s) = config s"
  "sim_tick (updateRequest k s) = sim_tick s"
  "length (replicas (updateRequest k s)) = length (replicas s)"
  "targetReplicas (updateRequest k s) = targetReplicas s"
  "metrics (updateRequest k s) = metrics s"
  "nextReplicaId (updateRequest k s) = nextReplicaId s"
  "nextId (updateRequest k s) = nextId s"
  "roundRobinIndex (updateRequest k s) = roundRobinIndex s"
  "paused (updateRequest k s) = paused s"
  "speed (updateRequest k s) = speed s"
  by (simp_all add: updateRequest_def upd_defs Let_def split: RequestState.splits option.splits)

lemma updateRequest_other:
  assumes "k \<noteq> i" and "i < length (requests s)"
  shows "eraseTargetX (requests (updateRequest k s) ! i) = eraseTargetX (requests s ! i)"
  using assms
  by (simp add: updateRequest_def upd_defs Let_def repositionQueue_nth_erase
      split: RequestState.splits option.splits)

lemma fold_frame:
  assumes "\<And>k s. g (f k s) = g s"
  shows "g (fold f ks s) = g s"
  using assms by (induction ks arbitrary: s) simp_all

lemma updateRequests_frame [simp]:
  "config (updateRequests s) = config s"
  "sim_tick (updateRequests s) = sim_tick s"
  "length (replicas (updateRequests s)) = length (replicas s)"
  "length (requests (updateRequests s)) = length (requests s)"
  "targetReplicas (updateRequests s) = targetReplicas s"
  "metrics (updateRequests s) = metrics s"
  "nextReplicaId (updateRequests s) = nextReplicaId s"
  "nextId (updateRequests s) = nextId s"
  "roundRobinIndex (updateRequests s) = roundRobinIndex s"
  "paused (updateRequests s) = paused s"
  "speed (updateRequests s) = speed s"
  unfolding updateRequests_def
  by (rule fold_frame, simp)+

lemma updateReplicas_frame [simp]:
  "config (updateReplicas s) = config s"
  "sim_tick (updateReplicas s) = sim_tick s"
  "requests (updateReplicas s) = requests s"
  "length (replicas (updateReplicas s)) = length (replicas s)"
  "targetReplicas (updateReplicas s) = targetReplicas s"
  "metrics (updateReplicas s) = metrics s"
  "nextReplicaId (updateReplicas s) = nextReplicaId s"
  "nextId (updateReplicas s) = nextId s"
  "lastActivityTick (updateReplicas s) = lastActivityTick s"
  "roundRobinIndex (updateReplicas s) = roundRobinIndex s"
  "paused (updateReplicas s) = paused s"
  "speed (updateReplicas s) = speed s"
  by (simp_all add: updateReplicas_def)

lemma removeExited_frame [simp]:
  "config (removeExited s) = config s"
  "sim_tick (removeExited s) = sim_tick s"
  "replicas (removeExited s) = replicas s"
  "targetReplicas (removeExited s) = targetReplicas s"
  "metrics (removeExited s) = metrics s"
  "nextReplicaId (removeExited s) = nextReplicaId s"
  "nextId (removeExited s) = nextId s"
  "lastActivityTick (removeExited s) = lastActivityTick s"
  "roundRobinIndex (removeExited s) = roundRobinIndex s"
  "paused (removeExited s) = paused s"
  "speed (removeExited s) = speed s"
  by (simp_all add: removeExited_def)

lemma setTargetReplicas_frame [simp]:
  "config (setTargetReplicas n s) = config s"
  "sim_tick (setTargetReplicas n s) = sim_tick s"
  "requests (setTargetReplicas n s) = requests s"
  "replicas (setTargetReplicas n s) = replicas s"
  "metrics (setTargetReplicas n s) = metrics s"
  "nextReplicaId (setTargetReplicas n s) = nextReplicaId s"
  "nextId (setTargetReplicas n s) = nextId s"
  "roundRobinIndex (setTargetReplicas n s) = roundRobinIndex s"
  "paused (setTargetReplicas n s) = paused s"
  "speed (setTargetReplicas n s) = speed s"
  by (simp_all add: setTargetReplicas_def)

lemma scaleRules_frame [simp]:
  "config (scaleUpRule s) = config s"
  "sim_tick (scaleUpRule s) = sim_tick s"
  "requests (scaleUpRule s) = requests s"
  "replicas (scaleUpRule s) = replicas s"
  "metrics (scaleUpRule s) = metrics s"
  "nextReplicaId (scaleUpRule s) = nextReplicaId s"
  "nextId (scaleUpRule s) = nextId s"
  "roundRobinIndex (scaleUpRule s) = roundRobinIndex s"
  "paused (scaleUpRule s) = paused s"
  "speed (scaleUpRule s) = speed s"
  "config (scaleFromZeroRule s) = config s"
  "sim_tick (scaleFromZeroRule s) = sim_tick s"
  "requests (scaleFromZeroRule s) = requests s"
  "replicas (scaleFromZeroRule s) = replicas s"
  "metrics (scaleFromZeroRule s) = metrics s"
  "nextReplicaId (scaleFromZeroRule s) = nextReplicaId s"
  "nextId (scaleFromZeroRule s) = nextId s"
  "roundRobinIndex (scaleFromZeroRule s) = roundRobinIndex s"
  "paused (scaleFromZeroRule s) = paused s"
  "speed (scaleFromZeroRule s) = speed s"
  "config (scaleDownRule s) = config s"
  "sim_tick (scaleDownRule s) = sim_tick s"
  "requests (scaleDownRule s) = requests s"
  "replicas (scaleDownRule s) = replicas s"
  "metrics (scaleDownRule s) = metrics s"
  "nextReplicaId (scaleDownRule s) = nextReplicaId s"
  "nextId (scaleDownRule s) = nextId s"
  "roundRobinIndex (scaleDownRule s) = roundRobinIndex s"
  "paused (scaleDownRule s) = paused s"
  "speed (scaleDownRule s) = speed s"
  by (simp_all add: scaleUpRule_def scaleFromZeroRule_def scaleDownRule_def Let_def)

lemma sameButReplicas_refl [simp]: "sameButReplicas s s"
  by (simp add: sameButReplicas_def)

lemma sameButReplicas_trans: "sameButReplicas s t \<Longrightarrow> sameButReplicas t u \<Longrightarrow> sameButReplicas s u"
  by (simp add: sameButReplicas_def)

lemma sameButReplicas_modReplica [simp]: "sameButReplicas s (modReplica j f s)"
  by (simp add: sameButReplicas_def)

lemma scaleUpLoop_same: "sameButReplicas s (snd (scaleUpLoop n s))"
proof (induction n s rule: scaleUpLoop.induct)
  case (1 n s)
  show ?case
  proof (cases "n < targetReplicas s")
    case False
    then show ?thesis by (subst scaleUpLoop.simps) simp
  next
    case True
    show ?thesis
    proof (cases "findIndex (\<lambda>rp. rep_state rp = Stopped) (replicas s)")
      case (Some j)
      have "sameButReplicas s (modReplica j (restartReplica (sim_tick s)) s)" by simp
      from sameButReplicas_trans [OF this "1.IH"(2) [OF True Some]]
      show ?thesis using True Some by (subst scaleUpLoop.simps) simp
    next
      case None
      show ?thesis
      proof (cases "int (length (replicas s)) < maxReplicas (config s)")
        case False
        then show ?thesis using True None by (subst scaleUpLoop.simps) simp
      next
        case grow: True
        have "sameButReplicas s (s\<lparr>replicas := replicas s @ [newReplica (nextReplicaId s) (sim_tick s)],
                          nextReplicaId := nextReplicaId s + 1\<rparr>)"
          by (simp add: sameButReplicas_def)
        from sameButReplicas_trans [OF this "1.IH"(1) [OF True None grow]]
        show ?thesis using True None grow by (subst scaleUpLoop.simps) simp
      qed
    qed
  qed
qed

lemma scaleDownLoop_same: "sameButReplicas s (scaleDownLoop n s)"
proof (induction n s rule: scaleDownLoop.induct)
  case (1 n s)
  show ?case
  proof (cases "n > targetReplicas s")
    case False
    then show ?thesis by (subst scaleDownLoop.simps) simp
  next
    case True
    show ?thesis
    proof (cases "findIndex (\<lambda>rp. rep_state rp = Ready \<and> length (currentRequestIds rp) = 0) (replicas s)")
      case (Some j)
      have "sameButReplicas s (modReplica j (stopReplica (sim_tick s)) s)" by simp
      from sameButReplicas_trans [OF this "1.IH" [OF True Some]]
      show ?thesis using True Some by (subst scaleDownLoop.simps) simp
    next
      case None
      then show ?thesis using True by (subst scaleDownLoop.simps) simp
    qed
  qed
qed

lemma reconcileReplicas_same: "sameButReplicas s (reconcileReplicas s)"
proof -
  obtain n1 s1 where l: "scaleUpLoop (int (length (filter (\<lambda>rp. rep_state rp \<noteq> Stopped) (replicas s)))) s = (n1, s1)"
    by (cases "scaleUpLoop (int (length (filter (\<lambda>rp. rep_state rp \<noteq> Stopped) (replicas s)))) s")
  have "sameButReplicas s s1"
    using scaleUpLoop_same [of s "int (length (filter (\<lambda>rp. rep_state rp \<noteq> Stopped) (replicas s)))"] l
    by simp
  then have "sameButReplicas s (scaleDownLoop n1 s1)"
    using scaleDownLoop_same sameButReplicas_trans by blast
  then show ?thesis by (simp add: reconcileReplicas_def l)
qed

lemma reconcileReplicas_frame [simp]:
  "config (reconcileReplicas s) = config s"
  "sim_tick (reconcileReplicas s) = sim_tick s"
  "requests (reconcileReplicas s) = requests s"
  "metrics (reconcileReplicas s) = metrics s"
  "targetReplicas (reconcileReplicas s) = targetReplicas s"
  "lastActivityTick (reconcileReplicas s) = lastActivityTick s"
  "nextId (reconcileReplicas s) = nextId s"
  "roundRobinIndex (reconcileReplicas s) = roundRobinIndex s"
  "paused (reconcileReplicas s) = paused s"
  "speed (reconcileReplicas s) = speed s"
  using reconcileReplicas_same [of s] by (simp_all add: sameButReplicas_def)

lemma handleAutoscaling_frame [simp]:
  "config (handleAutoscaling s) = config s"
  "sim_tick (handleAutoscaling s) = sim_tick s"
  "requests (handleAutoscaling s) = requests s"
  "metrics (handleAutoscaling s) = metrics s"
  "nextId (handleAutoscaling s) = nextId s"
  "roundRobinIndex (handleAutoscaling s) = roundRobinIndex s"
  "paused (handleAutoscaling s) = paused s"
  "speed (handleAutoscaling s) = speed s"
  by (simp_all add: handleAutoscaling_def)

lemma sameButCollections_refl [simp]: "sameButCollections s s"
  by (simp add: sameButCollections_def)

lemma sameButCollections_trans:
  "sameButCollections s t \<Longrightarrow> sameButCollections t u \<Longrightarrow> sameButCollections s u"
  by (simp add: sameButCollections_def)

lemma assignTo_same: "sameButCollections s (assignTo act ri k s)"
  by (simp add: sameButCollections_def assignTo_def Let_def)

lemma assignLoop_same: "sameButCollections s (assignLoop act waiting s)"
proof (induction waiting arbitrary: s)
  case Nil
  then show ?case by simp
next
  case (Cons ri rest)
  show ?case
  proof (cases "findSlot act s")
    case None
    then show ?thesis by simp
  next
    case (Some k)
    from sameButCollections_trans [OF assignTo_same Cons.IH]
    show ?thesis using Some by simp
  qed
qed

lemma parkOnStarting_same: "sameButCollections s (parkOnStarting ri rid w s)"
  by (simp add: sameButCollections_def parkOnStarting_def)

lemma startingLoop_same: "sameButCollections s (startingLoop starting q n queued s)"
proof (induction queued arbitrary: s n)
  case Nil
  then show ?case by simp
next
  case (Cons ri rest)
  let ?rid = "rep_id (replicas s ! (starting ! (n mod length starting)))"
  let ?s1 = "(if waitingForReplica ?rid s < ceilDiv q (length starting) + 1
                then parkOnStarting ri ?rid (waitingForReplica ?rid s) s
                else s)"
  have "sameButCollections s ?s1" by (simp add: parkOnStarting_same)
  from sameButCollections_trans [OF this Cons.IH]
  show ?case by (simp add: Let_def)
qed

lemma assignToStartingReplicas_same: "sameButCollections s (assignToStartingReplicas queued s)"
  by (simp add: assignToStartingReplicas_def Let_def startingLoop_same)

lemma tryAssignToReplicas_same: "sameButCollections s (tryAssignToReplicas s)"
proof (cases "length (activeOrder (replicas s)) = 0")
  case True
  then show ?thesis
    by (simp add: tryAssignToReplicas_def Let_def assignToStartingReplicas_same)
next
  case False
  let ?s1 = "assignLoop (activeOrder (replicas s)) (queueOrder (requests s)) s"
  have "sameButCollections s (assignToStartingReplicas (stillWaiting ?s1) ?s1)"
    by (rule sameButCollections_trans [OF assignLoop_same assignToStartingReplicas_same])
  with False show ?thesis
    by (simp add: tryAssignToReplicas_def Let_def)
qed

lemma tryAssignToReplicas_frame [simp]:
  "config (tryAssignToReplicas s) = config s"
  "sim_tick (tryAssignToReplicas s) = sim_tick s"
  "metrics (tryAssignToReplicas s) = metrics s"
  "targetReplicas (tryAssignToReplicas s) = targetReplicas s"
  "lastActivityTick (tryAssignToReplicas s) = lastActivityTick s"
  "nextId (tryAssignToReplicas s) = nextId s"
  "nextReplicaId (tryAssignToReplicas s) = nextReplicaId s"
  "paused (tryAssignToReplicas s) = paused s"
  "speed (tryAssignToReplicas s) = speed s"
  "length (requests (tryAssignToReplicas s)) = length (requests s)"
  "length (replicas (tryAssignToReplicas s)) = length (replicas s)"
  using tryAssignToReplicas_same [of s] by (simp_all add: sameButCollections_def)

lemma updateMetrics_frame [simp]:
  "config (updateMetrics s) = config s"
  "sim_tick (updateMetrics s) = sim_tick s"
  "requests (updateMetrics s) = requests s"
  "replicas (updateMetrics s) = replicas s"
  "targetReplicas (updateMetrics s) = targetReplicas s"
  "lastActivityTick (updateMetrics s) = lastActivityTick s"
  "nextId (updateMetrics s) = nextId s"
  "nextReplicaId (updateMetrics s) = nextReplicaId s"
  "roundRobinIndex (updateMetrics s) = roundRobinIndex s"
  "paused (updateMetrics s) = paused s"
  "speed (updateMetrics s) = speed s"
  by (simp_all add: updateMetrics_def)

lemma tick_unfold: "tick deltaMs s = (if paused s then s else updateMetrics (beforeMetrics deltaMs s))"
  by (simp add: tick_def beforeMetrics_def)

lemma beforeMetrics_metrics: "metrics (beforeMetrics deltaMs s) = metrics s"
  by (simp add: beforeMetrics_def)

lemma tick_metrics:
  "\<not> paused s \<Longrightarrow>
   metrics (tick deltaMs s) =
     (metrics s)
       \<lparr>m_queued := length (filter (\<lambda>r. req_state r = Queued \<or> req_state r = WaitingForModel)
                               (requests (tick deltaMs s))),
        m_processing := length (filter (\<lambda>r. req_state r = Processing) (requests (tick deltaMs s))),
        m_replicas := length (filter (\<lambda>rp. rep_state rp \<noteq> Stopped) (replicas (tick deltaMs s))),
        m_readyReplicas := length (filter (\<lambda>rp. rep_state rp = Ready) (replicas (tick deltaMs s)))\<rparr>"
  by (simp add: tick_unfold) (simp add: updateMetrics_def beforeMetrics_metrics)

lemmas [sim_eval] = upd_defs updateRequest_def updateRequests_def updateReplica_def updateReplicas_def
  removeExited_def setTargetReplicas_def restartReplica_def newReplica_def stopReplica_def
  scaleUpLoop.simps scaleDownLoop.simps reconcileReplicas_def waitingCountOf_def
  processingCountOf_def totalReplicasOf_def scaleUpRule_def scaleFromZeroRule_def scaleDownRule_def
  handleAutoscaling_def activeOrder_def startingOrder_def findSlot_def assignTo_def
  waitingForReplica_def ceilDiv_def parkOnStarting_def assignToStartingReplicas_def stillWaiting_def
  tryAssignToReplicas_def updateMetrics_def initialMetrics_def tick_def addRequest_def
  setSpeed_def setPaused_def togglePause_def reset_def setConfig_def recordCompleted_def
  recordFailed_def recordExpired_def newSimulation_def DEFAULT_CONFIG_def
  modRequest_def modReplica_def recomputeState_def getReplicaX_def queueOrder_def
  repositionQueue_def lerpRequest_def fadeOut_def orZero_def truthy_def
  STAGE_X_enter_def STAGE_X_gateway_def STAGE_X_queue_def STAGE_X_queueEnd_def
  STAGE_X_model_def STAGE_X_webhook_def STAGE_X_exit_def Let_def run_def

lemma advanceSteps_numeral [simp]:
  "advanceSteps (numeral k) d s = advanceSteps (pred_numeral k) d (tick d s)"
  by (simp add: numeral_eq_Suc)

section \<open>C2: which metrics the step derives\<close>

text \<open>
  C2 (as amended). The metrics after each public operation, in terms of the metrics
  before it. An unpaused \<open>tick\<close> recomputes \<open>queued\<close>, \<open>processing\<close>,
  \<open>replicas\<close> and \<open>readyReplicas\<close> from the request and replica collections it
  leaves, and keeps \<open>completed\<close>, \<open>failed\<close> and \<open>expired\<close> as they were; a
  paused \<open>tick\<close> changes nothing. The three cumulative counters change only through
  \<open>recordCompleted\<close>, \<open>recordFailed\<close> and \<open>recordExpired\<close> (one more each) and
  \<open>reset\<close> (all metrics zero). Every other operation leaves the metrics alone.
\<close>

theorem C2_metrics_by_operation:
  "metrics (applyOp op s) =
     (case op of
        Tick deltaMs \<Rightarrow>
          if paused s then metrics s
          else (metrics s)
                 \<lparr>m_queued := length (filter (\<lambda>r. req_state r = Queued \<or> req_state r = WaitingForModel)
                                         (requests (tick deltaMs s))),
                  m_processing := length (filter (\<lambda>r. req_state r = Processing)
                                             (requests (tick deltaMs s))),
                  m_replicas := length (filter (\<lambda>rp. rep_state rp \<noteq> Stopped)
                                           (replicas (tick deltaMs s))),
                  m_readyReplicas := length (filter (\<lambda>rp. rep_state rp = Ready)
                                                (replicas (tick deltaMs s)))\<rparr>
      | Reset \<Rightarrow> initialMetrics
      | RecordCompleted \<Rightarrow> (metrics s)\<lparr>m_completed := m_completed (metrics s) + 1\<rparr>
      | RecordFailed \<Rightarrow> (metrics s)\<lparr>m_failed := m_failed (metrics s) + 1\<rparr>
      | RecordExpired \<Rightarrow> (metrics s)\<lparr>m_expired := m_expired (metrics s) + 1\<rparr>
      | _ \<Rightarrow> metrics s)"
proof (cases op)
  case (Tick deltaMs)
  then show ?thesis
    by (cases "paused s") (simp_all add: tick_metrics, simp add: tick_def)
next
  case Reset
  then show ?thesis by (simp add: reset_def Let_def)
qed (simp_all add: addRequest_def setSpeed_def setPaused_def togglePause_def setConfig_def
      recordCompleted_def recordFailed_def recordExpired_def)

theorem C2_metrics_by_operation_witness:
  "metrics (applyOp RecordCompleted (newSimulation DEFAULT_CONFIG))
     = initialMetrics\<lparr>m_completed := 1\<rparr>"
  using C2_metrics_by_operation [of RecordCompleted "newSimulation DEFAULT_CONFIG"]
  by (simp add: newSimulation_def DEFAULT_CONFIG_def initialMetrics_def)

text \<open>
  The claim as stated fails for the cumulative counters: \<open>recordCompleted\<close> on a fresh
  engine makes \<open>completed\<close> 1 with no request at all, and the next \<open>tick\<close> leaves
  it at 1 although the request collection is empty.
\<close>

theorem C2_completed_not_derived:
  "m_completed (metrics (recordCompleted (newSimulation DEFAULT_CONFIG))) = 1
   \<and> requests (tick 16 (recordCompleted (newSimulation DEFAULT_CONFIG))) = []
   \<and> m_completed (metrics (tick 16 (recordCompleted (newSimulation DEFAULT_CONFIG)))) = 1"
  by (simp add: sim_eval)

lemma fold_rule:
  assumes "P s" and "\<And>k s. P s \<Longrightarrow> P (f k s)"
  shows "P (fold f ks s)"
  using assms
proof (induction ks arbitrary: s)
  case Nil
  then show ?case by simp
next
  case (Cons k ks)
  from Cons.IH [OF assms(2) [OF Cons.prems(1)]] Cons.prems(2) show ?case by simp
qed

lemma updateRequests_rule:
  assumes "P s" and "\<And>k s. P s \<Longrightarrow> P (updateRequest k s)"
  shows "P (updateRequests s)"
  unfolding updateRequests_def using assms by (rule fold_rule)

lemma scaleUpLoop_rule:
  assumes "P s"
    and "\<And>s j. P s \<Longrightarrow> findIndex (\<lambda>rp. rep_state rp = Stopped) (replicas s) = Some j
           \<Longrightarrow> P (modReplica j (restartReplica (sim_tick s)) s)"
    and "\<And>s. P s \<Longrightarrow> int (length (replicas s)) < maxReplicas (config s)
           \<Longrightarrow> P (s\<lparr>replicas := replicas s @ [newReplica (nextReplicaId s) (sim_tick s)],
                    nextReplicaId := nextReplicaId s + 1\<rparr>)"
  shows "P (snd (scaleUpLoop n s))"
  using assms(1)
proof (induction n s rule: scaleUpLoop.induct)
  case (1 n s)
  show ?case
  proof (cases "n < targetReplicas s")
    case False
    then show ?thesis using "1.prems" by (subst scaleUpLoop.simps) simp
  next
    case True
    show ?thesis
    proof (cases "findIndex (\<lambda>rp. rep_state rp = Stopped) (replicas s)")
      case (Some j)
      have "P (modReplica j (restartReplica (sim_tick s)) s)"
        using assms(2) "1.prems" Some by blast
      from "1.IH"(2) [OF True Some this]
      show ?thesis using True Some by (subst scaleUpLoop.simps) simp
    next
      case None
      show ?thesis
      proof (cases "int (length (replicas s)) < maxReplicas (config s)")
        case False
        then show ?thesis using True None "1.prems" by (subst scaleUpLoop.simps) simp
      next
        case grow: True
        have "P (s\<lparr>replicas := replicas s @ [newReplica (nextReplicaId s) (sim_tick s)],
                    nextReplicaId := nextReplicaId s + 1\<rparr>)"
          using assms(3) "1.prems" grow by blast
        from "1.IH"(1) [OF True None grow this]
        show ?thesis using True None grow by (subst scaleUpLoop.simps) simp
      qed
    qed
  qed
qed

lemma scaleDownLoop_rule:
  assumes "P s"
    and "\<And>s j. P s \<Longrightarrow>
           findIndex (\<lambda>rp. rep_state rp = Ready \<and> length (currentRequestIds rp) = 0) (replicas s) = Some j
           \<Longrightarrow> P (modReplica j (stopReplica (sim_tick s)) s)"
  shows "P (scaleDownLoop n s)"
  using assms(1)
proof (induction n s rule: scaleDownLoop.induct)
  case (1 n s)
  show ?case
  proof (cases "n > targetReplicas s")
    case False
    then show ?thesis using "1.prems" by (subst scaleDownLoop.simps) simp
  next
    case True
    show ?thesis
    proof (cases "findIndex (\<lambda>rp. rep_state rp = Ready \<and> length (currentRequestIds rp) = 0) (replicas s)")
      case (Some j)
      have "P (modReplica j (stopReplica (sim_tick s)) s)"
        using assms(2) "1.prems" Some by blast
      from "1.IH" [OF True Some this]
      show ?thesis using True Some by (subst scaleDownLoop.simps) simp
    next
      case None
      then show ?thesis using True "1.prems" by (subst scaleDownLoop.simps) simp
    qed
  qed
qed

lemma reconcileReplicas_rule:
  assumes "P s"
    and "\<And>s j. P s \<Longrightarrow> findIndex (\<lambda>rp. rep_state rp = Stopped) (replicas s) = Some j
           \<Longrightarrow> P (modReplica j (restartReplica (sim_tick s)) s)"
    and "\<And>s. P s \<Longrightarrow> int (length (replicas s)) < maxReplicas (config s)
           \<Longrightarrow> P (s\<lparr>replicas := replicas s @ [newReplica (nextReplicaId s) (sim_tick s)],
                    nextReplicaId := nextReplicaId s + 1\<rparr>)"
    and "\<And>s j. P s \<Longrightarrow>
           findIndex (\<lambda>rp. rep_state rp = Ready \<and> length (currentRequestIds rp) = 0) (replicas s) = Some j
           \<Longrightarrow> P (modReplica j (stopReplica (sim_tick s)) s)"
  shows "P (reconcileReplicas s)"
proof -
  let ?n = "int (length (filter (\<lambda>rp. rep_state rp \<noteq> Stopped) (replicas s)))"
  obtain n1 s1 where l: "scaleUpLoop ?n s = (n1, s1)"
    by (cases "scaleUpLoop ?n s")
  have "P (snd (scaleUpLoop ?n s))"
    using assms(1,2,3) by (rule scaleUpLoop_rule)
  then have "P s1" using l by simp
  then have "P (scaleDownLoop n1 s1)"
    using assms(4) by (rule scaleDownLoop_rule)
  then show ?thesis by (simp add: reconcileReplicas_def l)
qed

lemma assignLoop_rule:
  assumes "P s"
    and "\<And>s ri k. P s \<Longrightarrow> findSlot act s = Some k \<Longrightarrow> P (assignTo act ri k s)"
  shows "P (assignLoop act ws s)"
  using assms(1)
proof (induction ws arbitrary: s)
  case Nil
  then show ?case by simp
next
  case (Cons ri rest)
  show ?case
  proof (cases "findSlot act s")
    case None
    then show ?thesis using Cons.prems by simp
  next
    case (Some k)
    have "P (assignTo act ri k s)" using assms(2) Cons.prems Some by blast
    from Cons.IH [OF this] show ?thesis using Some by simp
  qed
qed

lemma startingLoop_rule:
  assumes "P s"
    and "\<And>s ri rid w. P s \<Longrightarrow> P (parkOnStarting ri rid w s)"
  shows "P (startingLoop starting q n queued s)"
  using assms(1)
proof (induction queued arbitrary: s n)
  case Nil
  then show ?case by simp
next
  case (Cons ri rest)
  let ?rid = "rep_id (replicas s ! (starting ! (n mod length starting)))"
  let ?s1 = "(if waitingForReplica ?rid s < ceilDiv q (length starting) + 1
                then parkOnStarting ri ?rid (waitingForReplica ?rid s) s
                else s)"
  have "P ?s1"
  proof (cases "waitingForReplica ?rid s < ceilDiv q (length starting) + 1")
    case True
    then show ?thesis using assms(2) [OF Cons.prems] by simp
  next
    case False
    then show ?thesis using Cons.prems by simp
  qed
  from Cons.IH [OF this] show ?case by (simp add: Let_def)
qed

lemma tryAssignToReplicas_rule:
  assumes "P s"
    and "\<And>s ri k. P s \<Longrightarrow> findSlot (activeOrder (replicas s0)) s = Some k
            \<Longrightarrow> P (assignTo (activeOrder (replicas s0)) ri k s)"
    and "\<And>s ri rid w. P s \<Longrightarrow> P (parkOnStarting ri rid w s)"
    and "s0 = s"
  shows "P (tryAssignToReplicas s)"
proof -
  have st: "P (assignToStartingReplicas q t)" if "P t" for q t
    using that assms(3) by (simp add: assignToStartingReplicas_def Let_def startingLoop_rule)
  have "P (assignLoop (activeOrder (replicas s)) (queueOrder (requests s)) s)"
  proof (rule assignLoop_rule [where P = P])
    show "P s" by (rule assms(1))
  next
    fix t ri k
    assume "P t" and "findSlot (activeOrder (replicas s)) t = Some k"
    then show "P (assignTo (activeOrder (replicas s)) ri k t)"
      using assms(2) [of t k ri] assms(4) by simp
  qed
  then show ?thesis
    using st assms(1) by (simp add: tryAssignToReplicas_def Let_def)
qed

section \<open>No failed or rate-limited request\<close>

lemma noFailed_nth:
  "noFailed s \<longleftrightarrow> (\<forall>i < length (requests s). okRequest (requests s ! i))"
  by (simp add: noFailed_def list_all_length)

lemma updateRequest_self_ok:
  assumes "k < length (requests s)" and "okRequest (requests s ! k)"
  shows "okRequest (requests (updateRequest k s) ! k)"
  using assms
  by (simp add: okRequest_def updateRequest_def upd_defs Let_def fadeOut_def lerpRequest_def
      split: RequestState.splits option.splits)

lemma noFailed_updateRequest: "noFailed s \<Longrightarrow> noFailed (updateRequest k s)"
  unfolding noFailed_nth
proof (intro allI impI)
  fix i
  assume inv: "\<forall>i<length (requests s). okRequest (requests s ! i)"
    and "i < length (requests (updateRequest k s))"
  then have i: "i < length (requests s)" by simp
  show "okRequest (requests (updateRequest k s) ! i)"
  proof (cases "i = k")
    case True
    then show ?thesis using updateRequest_self_ok i inv by simp
  next
    case False
    then have "req_state (requests (updateRequest k s) ! i) = req_state (requests s ! i)"
      using updateRequest_other [of k i s] i by (auto intro: eraseTargetX_fields(1))
    then show ?thesis using inv i by (simp add: okRequest_def)
  qed
qed

lemma noFailed_repositionQueue: "noFailed (repositionQueue s) = noFailed s"
  by (simp add: noFailed_nth okRequest_def)

lemma noFailed_modRequest:
  assumes "noFailed s" and "\<And>r. okRequest r \<Longrightarrow> okRequest (f r)"
  shows "noFailed (modRequest i f s)"
  using assms unfolding noFailed_nth
  by (metis modRequest_fields(12) modRequest_nth_other modRequest_nth_same)

lemma noFailed_replicas_irrelevant:
  "requests s' = requests s \<Longrightarrow> noFailed s' = noFailed s"
  by (simp add: noFailed_def)

lemma assignTo_state:
  "i < length (requests s) \<Longrightarrow>
   req_state (requests (assignTo act ri k s) ! i)
     = (if i = ri then Processing else req_state (requests s ! i))"
  by (simp add: assignTo_def Let_def)

lemma parkOnStarting_state:
  "i < length (requests s) \<Longrightarrow>
   req_state (requests (parkOnStarting ri rid w s) ! i)
     = (if i = ri then WaitingForModel else req_state (requests s ! i))"
  by (simp add: parkOnStarting_def)

lemma assignTo_length [simp]: "length (requests (assignTo act ri k s)) = length (requests s)"
  by (simp add: assignTo_def Let_def)

lemma parkOnStarting_length [simp]:
  "length (requests (parkOnStarting ri rid w s)) = length (requests s)"
  by (simp add: parkOnStarting_def)

lemma noFailed_assignTo: "noFailed s \<Longrightarrow> noFailed (assignTo act ri k s)"
  by (simp add: noFailed_nth okRequest_def assignTo_state)

lemma noFailed_parkOnStarting: "noFailed s \<Longrightarrow> noFailed (parkOnStarting ri rid w s)"
  by (simp add: noFailed_nth okRequest_def parkOnStarting_state)

lemma noFailed_tryAssign: "noFailed s \<Longrightarrow> noFailed (tryAssignToReplicas s)"
  by (rule tryAssignToReplicas_rule [where P = noFailed and ?s0.0 = s])
    (simp_all add: noFailed_assignTo noFailed_parkOnStarting)

lemma noFailed_tick: "noFailed s \<Longrightarrow> noFailed (tick d s)"
proof -
  assume a: "noFailed s"
  let ?s0 = "s\<lparr>sim_tick := sim_tick s + d * speed s\<rparr>"
  have "noFailed ?s0" using a by (simp add: noFailed_def)
  then have "noFailed (updateRequests ?s0)"
    by (rule updateRequests_rule) (rule noFailed_updateRequest)
  then have "noFailed (removeExited (updateReplicas (updateRequests ?s0)))"
    by (simp add: noFailed_def removeExited_def list_all_iff)
  then have "noFailed (handleAutoscaling (removeExited (updateReplicas (updateRequests ?s0))))"
    by (simp add: noFailed_def)
  then have "noFailed (tryAssignToReplicas (handleAutoscaling (removeExited (updateReplicas (updateRequests ?s0)))))"
    by (rule noFailed_tryAssign)
  then have "noFailed (updateMetrics (tryAssignToReplicas (handleAutoscaling (removeExited (updateReplicas (updateRequests ?s0))))))"
    by (simp add: noFailed_def)
  then show ?thesis using a by (simp add: tick_def)
qed

lemma noFailed_applyOp: "noFailed s \<Longrightarrow> noFailed (applyOp op s)"
  by (cases op)
    (simp_all add: noFailed_tick, simp_all add: noFailed_def addRequest_def okRequest_def
      setSpeed_def setPaused_def togglePause_def reset_def setConfig_def recordCompleted_def
      recordFailed_def recordExpired_def Let_def)

lemma noFailed_run: "noFailed s \<Longrightarrow> noFailed (run ops s)"
  unfolding run_def by (rule fold_rule) (simp_all add: noFailed_applyOp)

lemma noFailed_new: "noFailed (newSimulation cfg)"
  by (simp add: noFailed_def newSimulation_def Let_def setTargetReplicas_def)

section \<open>Capacity\<close>

lemma capInv_same:
  "replicas s' = replicas s \<Longrightarrow> config s' = config s \<Longrightarrow> capInv s' = capInv s"
  by (simp add: capInv_def)

lemma capInv_modReplica:
  assumes "capInv s"
    and "j < length (replicas s) \<Longrightarrow> capOk (concurrencyTarget (config s)) (f (replicas s ! j))"
  shows "capInv (modReplica j f s)"
  unfolding capInv_def
proof (intro conjI allI impI)
  show "1 \<le> concurrencyTarget (config (modReplica j f s))"
    using assms(1) by (simp add: capInv_def)
next
  fix i
  assume "i < length (replicas (modReplica j f s))"
  then have i: "i < length (replicas s)" by simp
  show "capOk (concurrencyTarget (config (modReplica j f s))) (replicas (modReplica j f s) ! i)"
  proof (cases "i = j")
    case True
    then show ?thesis using assms(2) i by simp
  next
    case False
    then show ?thesis using assms(1) i by (simp add: capInv_def)
  qed
qed

lemma capOk_push:
  assumes "int (length (currentRequestIds rp)) < ct"
  shows "capOk ct (recomputeState ct (rp\<lparr>currentRequestIds := currentRequestIds rp @ [k]\<rparr>))"
  using assms by (simp add: capOk_def recomputeState_def)

lemma capOk_shrink:
  assumes "capOk ct rp" and "length ids \<le> length (currentRequestIds rp)"
  shows "capOk ct (rp\<lparr>currentRequestIds := ids\<rparr>)"
    and "capOk ct (recomputeState ct (rp\<lparr>currentRequestIds := ids\<rparr>))"
  using assms by (auto simp: capOk_def recomputeState_def)

lemma capOk_release:
  assumes "capOk ct rp"
  shows "capOk ct (rp\<lparr>currentRequestIds := filter P (currentRequestIds rp)\<rparr>)"
  by (rule capOk_shrink(1) [OF assms]) simp

lemma capOk_release_recompute:
  assumes "capOk ct rp"
  shows "capOk ct (recomputeState ct (rp\<lparr>currentRequestIds := filter P (currentRequestIds rp)\<rparr>))"
  by (rule capOk_shrink(2) [OF assms]) simp

lemma capInv_updWaitingForModel: "capInv s \<Longrightarrow> capInv (updWaitingForModel i s)"
proof -
  assume inv: "capInv s"
  let ?ct = "concurrencyTarget (config s)"
  let ?r = "requests s ! i"
  let ?claim = "\<lambda>j. modRequest i (\<lambda>r. r\<lparr>req_targetX := getReplicaX\<rparr>)
                           (modReplica j
                              (\<lambda>rp. recomputeState ?ct
                                       (rp\<lparr>currentRequestIds := currentRequestIds rp @ [req_id ?r]\<rparr>))
                              (modRequest i
                                 (\<lambda>r. r\<lparr>req_state := Processing,
                                         processStartedAt := Some (sim_tick s)\<rparr>) s))"
  have claim: "capInv (?claim j)" if "rep_state (replicas s ! j) = Ready" for j
  proof -
    have "capInv (modReplica j
                              (\<lambda>rp. recomputeState ?ct
                                       (rp\<lparr>currentRequestIds := currentRequestIds rp @ [req_id ?r]\<rparr>)) s)"
    proof (rule capInv_modReplica [OF inv])
      assume "j < length (replicas s)"
      then have "capOk ?ct (replicas s ! j)" using inv by (simp add: capInv_def)
      then have "int (length (currentRequestIds (replicas s ! j))) < ?ct"
        using that by (simp add: capOk_def)
      then show "capOk ?ct (recomputeState ?ct ((replicas s ! j)\<lparr>currentRequestIds := currentRequestIds (replicas s ! j) @ [req_id ?r]\<rparr>))"
        by (rule capOk_push)
    qed
    then show ?thesis by (simp add: capInv_def modReplica_def)
  qed
  have release: "capInv (modReplica j (\<lambda>rp. rp\<lparr>currentRequestIds := filter P (currentRequestIds rp)\<rparr>) t)"
    if "capInv t" for t j P
    using that
  proof (rule capInv_modReplica)
    assume "j < length (replicas t)"
    then show "capOk (concurrencyTarget (config t)) ((replicas t ! j)\<lparr>currentRequestIds := filter P (currentRequestIds (replicas t ! j))\<rparr>)"
      using that by (simp add: capInv_def capOk_release)
  qed
  have expire: "capInv (modRequest i g t)" if "capInv t" for t g
    using that by (simp add: capInv_def)
  show ?thesis
    unfolding updWaitingForModel_def Let_def
    using inv claim release expire
    by (auto split: option.splits)
qed

lemma capInv_updProcessing: "capInv s \<Longrightarrow> capInv (updProcessing i s)"
proof -
  assume inv: "capInv s"
  have rel: "capInv (modReplica j (\<lambda>rp. recomputeState (concurrencyTarget (config s))
                (rp\<lparr>currentRequestIds := filter P (currentRequestIds rp)\<rparr>)) s)" for j P
  proof (rule capInv_modReplica [OF inv])
    assume "j < length (replicas s)"
    then show "capOk (concurrencyTarget (config s)) (recomputeState (concurrencyTarget (config s))
       ((replicas s ! j)\<lparr>currentRequestIds := filter P (currentRequestIds (replicas s ! j))\<rparr>))"
      using inv by (simp add: capInv_def capOk_release_recompute)
  qed
  have "capInv (t\<lparr>lastActivityTick := v\<rparr>) = capInv t" for t v
    by (simp add: capInv_def)
  moreover have "capInv (modRequest i g t) = capInv t" for t g
    by (simp add: capInv_def)
  ultimately show ?thesis
    unfolding updProcessing_def Let_def
    using inv rel by (auto split: option.splits)
qed

lemma upd_other_replicas:
  "replicas (updEntering i s) = replicas s"
  "replicas (updValidating i s) = replicas s"
  "replicas (updQueued i s) = replicas s"
  "replicas (updDelivering i s) = replicas s"
  "replicas (updCompleted i s) = replicas s"
  "replicas (updFailed i s) = replicas s"
  "replicas (updExpired i s) = replicas s"
  by (simp_all add: updEntering_def updValidating_def updQueued_def updDelivering_def
      updCompleted_def updFailed_def updExpired_def Let_def)

lemma upd_config:
  "config (updEntering i s) = config s"
  "config (updValidating i s) = config s"
  "config (updQueued i s) = config s"
  "config (updDelivering i s) = config s"
  "config (updCompleted i s) = config s"
  "config (updFailed i s) = config s"
  "config (updExpired i s) = config s"
  by (simp_all add: updEntering_def updValidating_def updQueued_def updDelivering_def
      updCompleted_def updFailed_def updExpired_def Let_def)

lemma capInv_updateRequest: "capInv s \<Longrightarrow> capInv (updateRequest k s)"
proof -
  assume inv: "capInv s"
  let ?s = "modRequest k lerpRequest s"
  have l: "capInv ?s" using inv by (simp add: capInv_def)
  show ?thesis
  proof (cases "req_state (requests ?s ! k)")
    case WaitingForModel
    then show ?thesis using capInv_updWaitingForModel [OF l] by (simp add: updateRequest_def)
  next
    case Processing
    then show ?thesis using capInv_updProcessing [OF l] by (simp add: updateRequest_def)
  qed (use l in \<open>simp_all add: updateRequest_def capInv_def upd_other_replicas upd_config\<close>)
qed

lemma capOk_updateReplica: "capOk ct rp \<Longrightarrow> capOk ct (updateReplica now cfg rp)"
  by (auto simp: capOk_def updateReplica_def Let_def)

lemma capInv_updateReplicas: "capInv s \<Longrightarrow> capInv (updateReplicas s)"
  by (simp add: capInv_def updateReplicas_def capOk_updateReplica)

lemma capInv_handleAutoscaling: "capInv s \<Longrightarrow> capInv (handleAutoscaling s)"
proof -
  assume inv: "capInv s"
  have "capInv (scaleDownRule (scaleFromZeroRule (scaleUpRule s)))"
    using inv by (simp add: capInv_def)
  then show ?thesis
    unfolding handleAutoscaling_def
  proof (rule reconcileReplicas_rule)
    fix t j
    assume t: "capInv t"
    then have "1 \<le> concurrencyTarget (config t)" by (simp add: capInv_def)
    then have "capOk (concurrencyTarget (config t)) (restartReplica (sim_tick t) (replicas t ! j))"
      by (simp add: capOk_def restartReplica_def)
    with t show "capInv (modReplica j (restartReplica (sim_tick t)) t)"
      by (intro capInv_modReplica)
  next
    fix t
    assume "capInv t"
    then show "capInv (t\<lparr>replicas := replicas t @ [newReplica (nextReplicaId t) (sim_tick t)],
                    nextReplicaId := nextReplicaId t + 1\<rparr>)"
      by (auto simp: capInv_def nth_append capOk_def newReplica_def)
  next
    fix t j
    assume t: "capInv t"
    then have "1 \<le> concurrencyTarget (config t)" by (simp add: capInv_def)
    then have "capOk (concurrencyTarget (config t)) (stopReplica (sim_tick t) (replicas t ! j))"
      by (simp add: capOk_def stopReplica_def)
    with t show "capInv (modReplica j (stopReplica (sim_tick t)) t)"
      by (intro capInv_modReplica)
  qed
qed

lemma findSlot_Some:
  assumes "findSlot act s = Some k"
  shows "int (length (currentRequestIds (replicas s ! (act ! k)))) < concurrencyTarget (config s)"
    and "k < length act"
proof -
  from assms obtain i where i: "i < length act"
    and k: "k = (roundRobinIndex s + i) mod length act"
    and c: "int (length (currentRequestIds (replicas s ! (act ! k)))) < concurrencyTarget (config s)"
    unfolding findSlot_def find_Some_iff by auto
  show "int (length (currentRequestIds (replicas s ! (act ! k)))) < concurrencyTarget (config s)"
    by (rule c)
  from i have "0 < length act" by (cases act) simp_all
  then show "k < length act" using k by simp
qed

lemma capInv_assignTo:
  assumes "capInv s" and "findSlot act s = Some k"
  shows "capInv (assignTo act ri k s)"
proof -
  let ?ct = "concurrencyTarget (config s)"
  let ?j = "act ! k"
  have "capInv (modReplica ?j
                 (\<lambda>rp. recomputeState ?ct
                          (rp\<lparr>currentRequestIds := currentRequestIds rp @ [req_id (requests s ! ri)]\<rparr>)) s)"
    by (rule capInv_modReplica [OF assms(1)]) (rule capOk_push, rule findSlot_Some(1) [OF assms(2)])
  then show ?thesis
    by (simp add: capInv_def assignTo_def Let_def modReplica_def)
qed

lemma capInv_parkOnStarting: "capInv s \<Longrightarrow> capInv (parkOnStarting ri rid w s)"
  by (simp add: capInv_def parkOnStarting_def)

lemma capInv_tryAssign: "capInv s \<Longrightarrow> capInv (tryAssignToReplicas s)"
  by (rule tryAssignToReplicas_rule [where P = capInv and ?s0.0 = s])
    (simp_all add: capInv_assignTo capInv_parkOnStarting)

lemma capInv_tick: "capInv s \<Longrightarrow> capInv (tick d s)"
proof -
  assume a: "capInv s"
  let ?s0 = "s\<lparr>sim_tick := sim_tick s + d * speed s\<rparr>"
  have "capInv ?s0" using a by (simp add: capInv_def)
  then have "capInv (updateRequests ?s0)"
    by (rule updateRequests_rule) (rule capInv_updateRequest)
  then have "capInv (updateReplicas (updateRequests ?s0))"
    by (rule capInv_updateReplicas)
  then have "capInv (removeExited (updateReplicas (updateRequests ?s0)))"
    by (simp add: capInv_def)
  then have "capInv (handleAutoscaling (removeExited (updateReplicas (updateRequests ?s0))))"
    by (rule capInv_handleAutoscaling)
  then have "capInv (tryAssignToReplicas (handleAutoscaling (removeExited (updateReplicas (updateRequests ?s0)))))"
    by (rule capInv_tryAssign)
  then have "capInv (updateMetrics (tryAssignToReplicas (handleAutoscaling (removeExited (updateReplicas (updateRequests ?s0))))))"
    by (simp add: capInv_def)
  then show ?thesis using a by (simp add: tick_def)
qed

lemma capInv_applyOp: "capInv s \<Longrightarrow> \<not> isSetConfig op \<Longrightarrow> capInv (applyOp op s)"
  by (cases op)
    (simp_all add: capInv_tick, simp_all add: capInv_def addRequest_def
      setSpeed_def setPaused_def togglePause_def reset_def recordCompleted_def
      recordFailed_def recordExpired_def Let_def setTargetReplicas_def)

lemma config_tick [simp]: "config (tick d s) = config s"
  by (simp add: tick_def)

lemma config_applyOp: "\<not> isSetConfig op \<Longrightarrow> config (applyOp op s) = config s"
  by (cases op)
    (simp_all add: addRequest_def setSpeed_def setPaused_def togglePause_def reset_def
      recordCompleted_def recordFailed_def recordExpired_def Let_def)

lemma run_rule:
  assumes "P s" and "list_all (\<lambda>op. \<not> isSetConfig op) ops"
    and "\<And>op s. P s \<Longrightarrow> \<not> isSetConfig op \<Longrightarrow> P (applyOp op s)"
  shows "P (run ops s)"
  using assms(1,2) unfolding run_def
proof (induction ops arbitrary: s)
  case Nil
  then show ?case by simp
next
  case (Cons op ops)
  then show ?case using assms(3) by simp
qed

lemma config_run:
  "list_all (\<lambda>op. \<not> isSetConfig op) ops \<Longrightarrow> config (run ops s) = config s"
  by (rule run_rule [where P = "\<lambda>t. config t = config s"]) (simp_all add: config_applyOp)

lemma capInv_new: "1 \<le> concurrencyTarget cfg \<Longrightarrow> capInv (newSimulation cfg)"
  by (simp add: capInv_def newSimulation_def Let_def setTargetReplicas_def)

lemma config_new [simp]: "config (newSimulation cfg) = cfg"
  by (simp add: newSimulation_def Let_def)

section \<open>Pool bound\<close>

lemma poolInv_same:
  "length (replicas s') = length (replicas s) \<Longrightarrow> config s' = config s
     \<Longrightarrow> nextReplicaId s' = nextReplicaId s \<Longrightarrow> poolInv s' = poolInv s"
  by (simp add: poolInv_def)

lemma poolInv_handleAutoscaling: "poolInv s \<Longrightarrow> poolInv (handleAutoscaling s)"
proof -
  assume inv: "poolInv s"
  have "poolInv (scaleDownRule (scaleFromZeroRule (scaleUpRule s)))"
    using inv by (simp add: poolInv_def)
  then show ?thesis
    unfolding handleAutoscaling_def
    by (rule reconcileReplicas_rule) (simp_all add: poolInv_def)
qed

lemma poolInv_tick: "poolInv s \<Longrightarrow> poolInv (tick d s)"
proof -
  assume a: "poolInv s"
  let ?s0 = "s\<lparr>sim_tick := sim_tick s + d * speed s\<rparr>"
  have "poolInv ?s0" using a by (simp add: poolInv_def)
  then have "poolInv (removeExited (updateReplicas (updateRequests ?s0)))"
    by (simp add: poolInv_def)
  then have "poolInv (handleAutoscaling (removeExited (updateReplicas (updateRequests ?s0))))"
    by (rule poolInv_handleAutoscaling)
  then have "poolInv (updateMetrics (tryAssignToReplicas (handleAutoscaling (removeExited (updateReplicas (updateRequests ?s0))))))"
    by (simp add: poolInv_def)
  then show ?thesis using a by (simp add: tick_def)
qed

lemma poolInv_applyOp:
  "poolInv s \<and> 0 \<le> maxReplicas (config s) \<Longrightarrow> \<not> isSetConfig op
     \<Longrightarrow> poolInv (applyOp op s) \<and> 0 \<le> maxReplicas (config (applyOp op s))"
  by (cases op)
    (simp_all add: poolInv_tick, simp_all add: poolInv_def addRequest_def
      setSpeed_def setPaused_def togglePause_def reset_def recordCompleted_def
      recordFailed_def recordExpired_def Let_def setTargetReplicas_def)

lemma poolInv_new: "0 \<le> maxReplicas cfg \<Longrightarrow> poolInv (newSimulation cfg)"
  by (simp add: poolInv_def newSimulation_def Let_def setTargetReplicas_def)

lemma run_Nil [simp]: "run [] s = s"
  by (simp add: run_def)

lemma run_Cons [simp]: "run (op # ops) s = run ops (applyOp op s)"
  by (simp add: run_def)

lemma run_append: "run (xs @ ys) s = run ys (run xs s)"
  by (simp add: run_def)

lemma run_replicate_Tick: "run (replicate n (Tick d)) s = advanceSteps n d s"
  by (induction n arbitrary: s) simp_all

section \<open>C1: the capacity a replica is held to\<close>




section \<open>C7: failed and rate-limited are never produced\<close>

text \<open>
  C7. From a fresh engine, after any sequence of public operations (configuration changes
  included), no request is in state \<open>failed\<close> or \<open>rate_limited\<close>; and
  \<open>updateRequest\<close> on a request in state \<open>delivering\<close> leaves it
  \<open>delivering\<close> or makes it \<open>completed\<close>.
\<close>

theorem C7_no_failed_or_rate_limited:
  "(\<forall>r \<in> set (requests (run ops (newSimulation cfg))).
       req_state r \<noteq> Failed \<and> req_state r \<noteq> RateLimited)
   \<and> (i < length (requests s) \<longrightarrow> req_state (requests s ! i) = Delivering \<longrightarrow>
        req_state (requests (updateRequest i s) ! i) = Delivering
        \<or> req_state (requests (updateRequest i s) ! i) = Completed)"
proof
  have "noFailed (run ops (newSimulation cfg))"
    by (rule noFailed_run) (rule noFailed_new)
  then show "\<forall>r \<in> set (requests (run ops (newSimulation cfg))).
       req_state r \<noteq> Failed \<and> req_state r \<noteq> RateLimited"
    by (simp add: noFailed_def list_all_iff okRequest_def)
next
  show "i < length (requests s) \<longrightarrow> req_state (requests s ! i) = Delivering \<longrightarrow>
        req_state (requests (updateRequest i s) ! i) = Delivering
        \<or> req_state (requests (updateRequest i s) ! i) = Completed"
    by (simp add: updateRequest_def updDelivering_def lerpRequest_def Let_def)
qed

theorem C7_no_failed_or_rate_limited_witness:
  "list_all (\<lambda>r. req_state r \<noteq> Failed \<and> req_state r \<noteq> RateLimited)
     (requests (run [AddRequest 1, Tick 16] (newSimulation DEFAULT_CONFIG)))
   \<and> 0 < length (requests exampleDelivering)
   \<and> req_state (requests exampleDelivering ! 0) = Delivering
   \<and> (req_state (requests (updateRequest 0 exampleDelivering) ! 0) = Delivering
      \<or> req_state (requests (updateRequest 0 exampleDelivering) ! 0) = Completed)"
  using C7_no_failed_or_rate_limited [of "[AddRequest 1, Tick 16]" DEFAULT_CONFIG 0 exampleDelivering]
  by (simp add: list_all_iff exampleDelivering_def)

section \<open>C9: the pool never outgrows maxReplicas\<close>



lemma insort_key_stable:
  assumes "sorted_wrt (stableBefore f) ys" and "\<forall>y \<in> set ys. x < y"
  shows "sorted_wrt (stableBefore f) (insort_key f x ys)"
  using assms
proof (induction ys)
  case Nil
  then show ?case by simp
next
  case (Cons y ys)
  show ?case
  proof (cases "f x \<le> f y")
    case True
    have "stableBefore f x z" if "z \<in> set (y # ys)" for z
    proof -
      have "f y \<le> f z" using that Cons.prems(1) by (auto simp: stableBefore_def)
      then have "f x \<le> f z" using True by simp
      moreover have "x < z" using that Cons.prems(2) by auto
      ultimately show ?thesis by (auto simp: stableBefore_def)
    qed
    then show ?thesis using True Cons.prems(1) by simp
  next
    case False
    then have "stableBefore f y x" by (auto simp: stableBefore_def not_le)
    moreover have "sorted_wrt (stableBefore f) (insort_key f x ys)"
      using Cons by simp
    ultimately show ?thesis using False Cons.prems(1) by (auto simp: set_insort_key)
  qed
qed

lemma sort_key_stable_order:
  assumes "sorted_wrt (<) xs"
  shows "sorted_wrt (stableBefore f) (sort_key f xs)"
  using assms
proof (induction xs)
  case Nil
  then show ?case by simp
next
  case (Cons x xs)
  then have "sorted_wrt (stableBefore f) (sort_key f xs)" by simp
  moreover have "\<forall>y \<in> set (sort_key f xs). x < y" using Cons.prems by simp
  ultimately show ?case by (simp add: insort_key_stable)
qed

lemma sorted_wrt_filter_upt: "sorted_wrt (<) (filter P [0..<n])"
  by (rule sorted_wrt_filter) (simp add: sorted_wrt_upt)

lemma queueOrder_sorted: "sorted_wrt (passBefore rs) (queueOrder rs)"
proof -
  have "sorted_wrt (stableBefore (\<lambda>i. (priority (rs ! i), createdAt (rs ! i)))) (queueOrder rs)"
    unfolding queueOrder_def by (rule sort_key_stable_order) (rule sorted_wrt_filter_upt)
  moreover have "stableBefore (\<lambda>i. (priority (rs ! i), createdAt (rs ! i))) = passBefore rs"
    by (intro ext) (auto simp: stableBefore_def passBefore_def)
  ultimately show ?thesis by simp
qed

lemma queueOrder_set:
  "set (queueOrder rs) = {i. i < length rs \<and> req_state (rs ! i) = Queued}"
  by (auto simp: queueOrder_def)

lemma queueOrder_distinct: "distinct (queueOrder rs)"
  by (simp add: queueOrder_def)

lemma activeOrder_set:
  "set (activeOrder rps) = {j. j < length rps \<and> (rep_state (rps ! j) = Ready \<or> rep_state (rps ! j) = Busy)}"
  by (auto simp: activeOrder_def)

lemma activeOrder_distinct: "distinct (activeOrder rps)"
  by (simp add: activeOrder_def)

lemma assignLoop_other_state:
  assumes "i \<notin> set ws" and "i < length (requests s)"
  shows "req_state (requests (assignLoop act ws s) ! i) = req_state (requests s ! i)"
  using assms
proof (induction ws arbitrary: s)
  case Nil
  then show ?case by simp
next
  case (Cons ri rest)
  show ?case
  proof (cases "findSlot act s")
    case None
    then show ?thesis by simp
  next
    case (Some k)
    have "req_state (requests (assignLoop act rest (assignTo act ri k s)) ! i)
            = req_state (requests (assignTo act ri k s) ! i)"
      using Cons by simp
    also have "\<dots> = req_state (requests s ! i)"
      using Cons.prems by (simp add: assignTo_state)
    finally show ?thesis using Some by simp
  qed
qed

lemma assignLoop_prefix:
  assumes "distinct ws"
    and "\<forall>i \<in> set ws. i < length (requests s) \<and> req_state (requests s ! i) = Queued"
  shows "\<exists>k \<le> length ws.
           (\<forall>m < length ws. req_state (requests (assignLoop act ws s) ! (ws ! m))
                               = (if m < k then Processing else Queued))
           \<and> (k < length ws \<longrightarrow> findSlot act (assignLoop act ws s) = None)"
  using assms
proof (induction ws arbitrary: s)
  case Nil
  then show ?case by simp
next
  case (Cons ri rest)
  show ?case
  proof (cases "findSlot act s")
    case None
    have "\<forall>m < length (ri # rest). req_state (requests s ! ((ri # rest) ! m)) = Queued"
      using Cons.prems(2) by (metis nth_mem)
    then show ?thesis using None by (intro exI [of _ 0]) simp
  next
    case (Some slot)
    let ?s1 = "assignTo act ri slot s"
    let ?f = "assignLoop act rest ?s1"
    have ri: "ri < length (requests s)" and notin: "ri \<notin> set rest" and d: "distinct rest"
      using Cons.prems by simp_all
    have "\<forall>i \<in> set rest. i < length (requests ?s1) \<and> req_state (requests ?s1 ! i) = Queued"
      using Cons.prems notin by (auto simp: assignTo_state)
    from Cons.IH [OF d this] obtain k where k: "k \<le> length rest"
      and pre: "\<forall>m < length rest. req_state (requests ?f ! (rest ! m)) = (if m < k then Processing else Queued)"
      and stop: "k < length rest \<longrightarrow> findSlot act ?f = None"
      by blast
    have "req_state (requests ?f ! ri) = req_state (requests ?s1 ! ri)"
      using notin ri by (simp add: assignLoop_other_state)
    then have first: "req_state (requests ?f ! ri) = Processing"
      using ri by (simp add: assignTo_state)
    have "\<forall>m < length (ri # rest). req_state (requests ?f ! ((ri # rest) ! m))
            = (if m < Suc k then Processing else Queued)"
    proof (intro allI impI)
      fix m
      assume m: "m < length (ri # rest)"
      show "req_state (requests ?f ! ((ri # rest) ! m)) = (if m < Suc k then Processing else Queued)"
      proof (cases m)
        case 0
        then show ?thesis using first by simp
      next
        case (Suc m')
        then show ?thesis using pre m by simp
      qed
    qed
    then show ?thesis using Some k stop by (intro exI [of _ "Suc k"]) simp
  qed
qed

lemma sorted_wrt_position:
  assumes "sorted_wrt R ws" and "a \<in> set ws" and "b \<in> set ws" and "R a b"
    and "\<And>x y. R x y \<Longrightarrow> \<not> R y x"
  shows "\<exists>ia ib. ia < ib \<and> ib < length ws \<and> ws ! ia = a \<and> ws ! ib = b"
proof -
  from assms(2,3) obtain ia ib where ia: "ia < length ws" "ws ! ia = a"
    and ib: "ib < length ws" "ws ! ib = b"
    by (auto simp: in_set_conv_nth)
  have "\<not> ib < ia"
  proof
    assume "ib < ia"
    then have "R b a" using assms(1) ia ib by (auto simp: sorted_wrt_iff_nth_less)
    then show False using assms(4,5) by blast
  qed
  moreover have "ia \<noteq> ib"
  proof
    assume "ia = ib"
    then have "a = b" using ia ib by simp
    then show False using assms(4,5) by blast
  qed
  ultimately have "ia < ib" by simp
  then show ?thesis using ia ib by blast
qed

lemma passBefore_asym: "passBefore rs x y \<Longrightarrow> \<not> passBefore rs y x"
  by (auto simp: passBefore_def)

lemma assignTo_frame [simp]:
  "config (assignTo act ri k s) = config s"
  "roundRobinIndex (assignTo act ri k s) = (k + 1) mod length act"
  "length (replicas (assignTo act ri k s)) = length (replicas s)"
  by (simp_all add: assignTo_def Let_def)

lemma assignTo_load:
  assumes "j < length (replicas s)"
  shows "loadOf (assignTo act ri k s) j = (if j = act ! k then Suc (loadOf s j) else loadOf s j)"
  using assms
  by (simp add: loadOf_def assignTo_def Let_def modReplica_def nth_list_update recomputeState_def)

lemma findSlot_two:
  "findSlot [p, q] s =
     (if roundRobinIndex s mod 2 = 0
      then (if int (loadOf s p) < concurrencyTarget (config s) then Some 0
            else if int (loadOf s q) < concurrencyTarget (config s) then Some 1 else None)
      else (if int (loadOf s q) < concurrencyTarget (config s) then Some 1
            else if int (loadOf s p) < concurrencyTarget (config s) then Some 0 else None))"
proof -
  let ?rr = "roundRobinIndex s"
  have scan: "map (\<lambda>i. (?rr + i) mod length [p, q]) [0..<length [p, q]]
                = [?rr mod 2, (?rr + 1) mod 2]"
    by (simp add: upt_rec numeral_2_eq_2)
  show ?thesis
  proof (cases "?rr mod 2 = 0")
    case True
    then have "(?rr + 1) mod 2 = 1" by presburger
    with True have "map (\<lambda>i. (?rr + i) mod length [p, q]) [0..<length [p, q]] = [0, 1]"
      using scan by simp
    then show ?thesis using True by (simp add: findSlot_def loadOf_def)
  next
    case False
    then have "?rr mod 2 = 1" "(?rr + 1) mod 2 = 0" by presburger+
    then have "map (\<lambda>i. (?rr + i) mod length [p, q]) [0..<length [p, q]] = [1, 0]"
      using scan by simp
    then show ?thesis using False by (simp add: findSlot_def loadOf_def)
  qed
qed

lemma parkOnStarting_replicas [simp]: "replicas (parkOnStarting ri rid w s) = replicas s"
  by (simp add: parkOnStarting_def)

lemma assignToStartingReplicas_replicas [simp]:
  "replicas (assignToStartingReplicas queued s) = replicas s"
proof -
  have "replicas (startingLoop st q n queued s) = replicas s" for st q n
    by (rule startingLoop_rule [where P = "\<lambda>t. replicas t = replicas s"]) simp_all
  then show ?thesis by (simp add: assignToStartingReplicas_def Let_def)
qed

lemma tryAssignToReplicas_replicas:
  "activeOrder (replicas s) \<noteq> [] \<Longrightarrow>
   replicas (tryAssignToReplicas s) = replicas (readyCapacityPass s)"
  by (simp add: tryAssignToReplicas_def readyCapacityPass_def Let_def)

lemma length4: "length ws = 4 \<Longrightarrow> \<exists>a b c d. ws = [a, b, c, d]"
  by (cases ws; simp; cases "tl ws"; simp; cases "tl (tl ws)"; simp; cases "tl (tl (tl ws))"; auto)

lemma fair_four:
  assumes "concurrencyTarget (config s) = 2"
    and "p \<noteq> q" and "p < length (replicas s)" and "q < length (replicas s)"
    and "loadOf s p = 0" and "loadOf s q = 0"
  shows "loadOf (assignLoop [p, q] [a, b, c, d] s) p = 2
       \<and> loadOf (assignLoop [p, q] [a, b, c, d] s) q = 2"
  using assms
  by (cases "roundRobinIndex s mod 2 = 0") (simp_all add: findSlot_two assignTo_load)

section \<open>C4: the order of the ready-capacity pass\<close>

text \<open>
  C4 (as amended). The ready-capacity pass takes the queued requests in the order
  \<open>passBefore\<close>: priority, then creation time, then position in the request array.
  For two queued requests \<open>a\<close> and \<open>b\<close> with \<open>a\<close> before \<open>b\<close> in that order:
  if the pass assigns \<open>b\<close> (it is \<open>processing\<close> afterwards) it assigns \<open>a\<close>;
  and if \<open>a\<close> is left queued then \<open>b\<close> is left queued too, and the pass stopped because
  no active replica has spare capacity (\<open>findSlot\<close> finds none in the state it leaves).
\<close>

theorem C4_pass_order:
  assumes "a < length (requests s)" and "b < length (requests s)"
    and "req_state (requests s ! a) = Queued" and "req_state (requests s ! b) = Queued"
    and "passBefore (requests s) a b"
  shows "(req_state (requests (readyCapacityPass s) ! b) = Processing
           \<longrightarrow> req_state (requests (readyCapacityPass s) ! a) = Processing)
       \<and> (req_state (requests (readyCapacityPass s) ! a) = Queued
           \<longrightarrow> req_state (requests (readyCapacityPass s) ! b) = Queued
               \<and> findSlot (activeOrder (replicas s)) (readyCapacityPass s) = None)"
proof -
  let ?w = "queueOrder (requests s)"
  let ?f = "readyCapacityPass s"
  have "a \<in> set ?w" "b \<in> set ?w" using assms(1-4) by (simp_all add: queueOrder_set)
  from sorted_wrt_position [OF queueOrder_sorted this assms(5) passBefore_asym]
  obtain ia ib where pos: "ia < ib" "ib < length ?w" "?w ! ia = a" "?w ! ib = b"
    by blast
  have "\<forall>i \<in> set ?w. i < length (requests s) \<and> req_state (requests s ! i) = Queued"
    by (simp add: queueOrder_set)
  from assignLoop_prefix [OF queueOrder_distinct this, of "activeOrder (replicas s)"]
  obtain k where k: "k \<le> length ?w"
    and pre: "\<forall>m < length ?w. req_state (requests ?f ! (?w ! m)) = (if m < k then Processing else Queued)"
    and stop: "k < length ?w \<longrightarrow> findSlot (activeOrder (replicas s)) ?f = None"
    unfolding readyCapacityPass_def by blast
  have sa: "req_state (requests ?f ! a) = (if ia < k then Processing else Queued)"
    using pre pos by (metis less_trans)
  have sb: "req_state (requests ?f ! b) = (if ib < k then Processing else Queued)"
    using pre pos by metis
  show ?thesis
  proof (cases "ia < k")
    case True
    then show ?thesis using sa by simp
  next
    case False
    then have "\<not> ib < k" "k < length ?w" using pos by simp_all
    then show ?thesis using sa sb stop False by simp
  qed
qed

theorem C4_pass_order_witness:
  "req_state (requests (readyCapacityPass exampleFour) ! 3) = Processing
   \<and> req_state (requests (readyCapacityPass exampleFour) ! 0) = Processing
   \<and> req_state (requests (readyCapacityPass exampleTie) ! 1) = Queued
   \<and> req_state (requests (readyCapacityPass exampleTie) ! 2) = Queued
   \<and> findSlot (activeOrder (replicas exampleTie)) (readyCapacityPass exampleTie) = None"
  using C4_pass_order [of 0 exampleFour 3] C4_pass_order [of 1 exampleTie 2]
  by (simp add: exampleFour_def exampleTie_def readyCapacityPass_def passBefore_def sim_eval)

text \<open>
  With \<open>\<le>\<close> on \<open>(priority, createdAt)\<close> alone the claim fails on a tie: requests 0
  and 1 have the same priority and creation time, so request 1's pair is \<open>\<le>\<close> request
  0's, yet the pass assigns request 0 and leaves request 1 queued.
\<close>

theorem C4_tie_is_broken_by_position:
  "req_state (requests exampleTie ! 0) = Queued
   \<and> req_state (requests exampleTie ! 1) = Queued
   \<and> (priority (requests exampleTie ! 1), createdAt (requests exampleTie ! 1))
       \<le> (priority (requests exampleTie ! 0), createdAt (requests exampleTie ! 0))
   \<and> req_state (requests (readyCapacityPass exampleTie) ! 0) = Processing
   \<and> req_state (requests (readyCapacityPass exampleTie) ! 1) = Queued"
  by (simp add: exampleTie_def readyCapacityPass_def sim_eval)

section \<open>C5: two ready replicas share four requests evenly\<close>

text \<open>
  C5. With a concurrency target of 2, exactly two active replicas \<open>p\<close> and \<open>q\<close>, both
  \<open>ready\<close> with no claimed request, and exactly four queued requests, after
  \<open>tryAssignToReplicas\<close> each of the two replicas claims exactly two requests, whatever
  the round-robin cursor, the priorities and the other requests and replicas are.
\<close>

theorem C5_round_robin_two_by_two:
  assumes "concurrencyTarget (config s) = 2"
    and "activeOrder (replicas s) = [p, q]"
    and "rep_state (replicas s ! p) = Ready" and "rep_state (replicas s ! q) = Ready"
    and "currentRequestIds (replicas s ! p) = []" and "currentRequestIds (replicas s ! q) = []"
    and "length (queueOrder (requests s)) = 4"
  shows "length (currentRequestIds (replicas (tryAssignToReplicas s) ! p)) = 2
       \<and> length (currentRequestIds (replicas (tryAssignToReplicas s) ! q)) = 2"
proof -
  have "distinct [p, q]" and "set [p, q] \<subseteq> {j. j < length (replicas s)}"
    using activeOrder_distinct [of "replicas s"] activeOrder_set [of "replicas s"] assms(2)
    by auto
  then have pq: "p \<noteq> q" "p < length (replicas s)" "q < length (replicas s)" by auto
  obtain a b c d where w: "queueOrder (requests s) = [a, b, c, d]"
    using length4 [OF assms(7)] by blast
  have "loadOf (assignLoop [p, q] [a, b, c, d] s) p = 2
       \<and> loadOf (assignLoop [p, q] [a, b, c, d] s) q = 2"
    using assms(1) pq assms(5,6) by (intro fair_four) (simp_all add: loadOf_def)
  then show ?thesis
    using assms(2) w by (simp add: tryAssignToReplicas_replicas readyCapacityPass_def loadOf_def)
qed

theorem C5_round_robin_two_by_two_witness:
  "length (currentRequestIds (replicas (tryAssignToReplicas exampleFour) ! 0)) = 2
   \<and> length (currentRequestIds (replicas (tryAssignToReplicas exampleFour) ! 1)) = 2"
  using C5_round_robin_two_by_two [of exampleFour 0 1]
  by (simp add: exampleFour_def newSimulation_def DEFAULT_CONFIG_def activeOrder_def
      queueOrder_def)

lemma tick_stages:
  "tick deltaMs s =
     (if paused s then s else updateMetrics (tryAssignToReplicas (beforeDispatch deltaMs s)))"
  by (simp add: tick_def beforeDispatch_def)

lemma fold_updateRequest_length [simp]:
  "length (requests (fold updateRequest ks s)) = length (requests s)"
  by (rule fold_frame) simp

lemma fold_updateRequest_frame [simp]:
  "sim_tick (fold updateRequest ks s) = sim_tick s"
  "config (fold updateRequest ks s) = config s"
  by (rule fold_frame, simp)+

lemma fold_updateRequest_other:
  assumes "i \<notin> set ks" and "i < length (requests s)"
  shows "eraseTargetX (requests (fold updateRequest ks s) ! i) = eraseTargetX (requests s ! i)"
  using assms
proof (induction ks arbitrary: s)
  case Nil
  then show ?case by simp
next
  case (Cons k ks)
  then have "eraseTargetX (requests (fold updateRequest ks (updateRequest k s)) ! i)
               = eraseTargetX (requests (updateRequest k s) ! i)"
    by simp
  also have "\<dots> = eraseTargetX (requests s ! i)"
    using Cons.prems by (intro updateRequest_other) auto
  finally show ?case by simp
qed

lemma updateRequests_turn:
  assumes "i < length (requests s)"
  shows "updateRequests s
           = fold updateRequest [Suc i..<length (requests s)]
               (updateRequest i (fold updateRequest [0..<i] s))"
proof -
  have "[0..<length (requests s)] = [0..<i] @ [i..<length (requests s)]"
    using assms upt_add_eq_append [of 0 i "length (requests s) - i"] by simp
  then have "[0..<length (requests s)] = [0..<i] @ i # [Suc i..<length (requests s)]"
    using assms by (simp add: upt_conv_Cons)
  then show ?thesis by (simp add: updateRequests_def)
qed

lemma updateRequest_queued_expires:
  assumes "i < length (requests s)" and "req_state (requests s ! i) = Queued"
    and "sim_tick s - orZero (queuedAt (requests s ! i)) > maxTimeInQueueMs (config s)"
  shows "req_state (requests (updateRequest i s) ! i) = Expired"
  using assms by (simp add: updateRequest_def updQueued_def lerpRequest_def Let_def)

lemma updateRequests_queued_expires:
  assumes "i < length (requests s)" and "req_state (requests s ! i) = Queued"
    and "sim_tick s - orZero (queuedAt (requests s ! i)) > maxTimeInQueueMs (config s)"
  shows "req_state (requests (updateRequests s) ! i) = Expired"
proof -
  let ?t = "fold updateRequest [0..<i] s"
  have e: "eraseTargetX (requests ?t ! i) = eraseTargetX (requests s ! i)"
    using assms(1) by (intro fold_updateRequest_other) simp_all
  have "req_state (requests (updateRequest i ?t) ! i) = Expired"
    using assms eraseTargetX_fields(1,3) [OF e]
    by (intro updateRequest_queued_expires) simp_all
  moreover have "eraseTargetX (requests (fold updateRequest [Suc i..<length (requests s)] (updateRequest i ?t)) ! i)
                   = eraseTargetX (requests (updateRequest i ?t) ! i)"
    using assms(1) by (intro fold_updateRequest_other) simp_all
  ultimately show ?thesis
    using updateRequests_turn [OF assms(1)] eraseTargetX_fields(1) by metis
qed

lemma withinTtl_self:
  assumes "i < length (requests s)" and "0 \<le> maxTimeInQueueMs (config s)"
  shows "withinTtl (updateRequest i s) (requests (updateRequest i s) ! i)"
  using assms
  by (simp add: withinTtl_def updateRequest_def upd_defs Let_def fadeOut_def lerpRequest_def
      orZero_def split: RequestState.splits option.splits)

lemma withinTtl_other:
  assumes "k \<noteq> i" and "i < length (requests s)" and "withinTtl s (requests s ! i)"
  shows "withinTtl (updateRequest k s) (requests (updateRequest k s) ! i)"
proof -
  have e: "eraseTargetX (requests (updateRequest k s) ! i) = eraseTargetX (requests s ! i)"
    using assms(1,2) by (rule updateRequest_other)
  show ?thesis
    using assms(3) eraseTargetX_fields(1,3) [OF e] by (simp add: withinTtl_def)
qed

lemma withinTtl_fold:
  assumes "0 \<le> maxTimeInQueueMs (config s)"
    and "\<forall>i \<in> S. i < length (requests s) \<longrightarrow> withinTtl s (requests s ! i)"
  shows "\<forall>i \<in> S \<union> set ks. i < length (requests s) \<longrightarrow>
           withinTtl (fold updateRequest ks s) (requests (fold updateRequest ks s) ! i)"
  using assms
proof (induction ks arbitrary: s S)
  case Nil
  then show ?case by simp
next
  case (Cons k ks)
  let ?s1 = "updateRequest k s"
  have "\<forall>i \<in> insert k S. i < length (requests ?s1) \<longrightarrow> withinTtl ?s1 (requests ?s1 ! i)"
  proof (intro ballI impI)
    fix i
    assume i: "i \<in> insert k S" "i < length (requests ?s1)"
    show "withinTtl ?s1 (requests ?s1 ! i)"
    proof (cases "i = k")
      case True
      then show ?thesis using i Cons.prems(1) by (simp add: withinTtl_self)
    next
      case False
      then show ?thesis using i Cons.prems(2) by (simp add: withinTtl_other)
    qed
  qed
  moreover have "0 \<le> maxTimeInQueueMs (config ?s1)" using Cons.prems(1) by simp
  ultimately have "\<forall>i \<in> insert k S \<union> set ks. i < length (requests ?s1) \<longrightarrow>
           withinTtl (fold updateRequest ks ?s1) (requests (fold updateRequest ks ?s1) ! i)"
    by (rule Cons.IH [rotated])
  then show ?case by simp
qed

lemma withinTtl_updateRequests:
  assumes "0 \<le> maxTimeInQueueMs (config s)"
  shows "\<forall>r \<in> set (requests (updateRequests s)). withinTtl (updateRequests s) r"
proof -
  have "\<forall>i \<in> {} \<union> set [0..<length (requests s)]. i < length (requests s) \<longrightarrow>
           withinTtl (updateRequests s) (requests (updateRequests s) ! i)"
    unfolding updateRequests_def by (rule withinTtl_fold [OF assms]) simp
  then show ?thesis
    by (auto simp: in_set_conv_nth)
qed

lemma withinTtl_beforeDispatch:
  assumes "0 \<le> maxTimeInQueueMs (config s)"
  shows "\<forall>r \<in> set (requests (beforeDispatch d s)). withinTtl (beforeDispatch d s) r"
proof -
  let ?s0 = "s\<lparr>sim_tick := sim_tick s + d * speed s\<rparr>"
  have "\<forall>r \<in> set (requests (updateRequests ?s0)). withinTtl (updateRequests ?s0) r"
    by (rule withinTtl_updateRequests) (use assms in simp)
  then show ?thesis
    by (auto simp: beforeDispatch_def removeExited_def withinTtl_def)
qed

lemma startingLoop_other_state:
  assumes "i \<notin> set ws" and "i < length (requests s)"
  shows "req_state (requests (startingLoop st q n ws s) ! i) = req_state (requests s ! i)"
  using assms
proof (induction ws arbitrary: s n)
  case Nil
  then show ?case by simp
next
  case (Cons ri rest)
  let ?rid = "rep_id (replicas s ! (st ! (n mod length st)))"
  let ?s1 = "(if waitingForReplica ?rid s < ceilDiv q (length st) + 1
                then parkOnStarting ri ?rid (waitingForReplica ?rid s) s
                else s)"
  have l: "length (requests ?s1) = length (requests s)" by simp
  have "req_state (requests (startingLoop st q (n + 1) rest ?s1) ! i) = req_state (requests ?s1 ! i)"
    using Cons.prems l by (intro Cons.IH) simp_all
  also have "\<dots> = req_state (requests s ! i)"
    using Cons.prems by (simp add: parkOnStarting_state)
  finally show ?case by (simp add: Let_def)
qed

lemma assignToStartingReplicas_other_state:
  assumes "i \<notin> set ws" and "i < length (requests s)"
  shows "req_state (requests (assignToStartingReplicas ws s) ! i) = req_state (requests s ! i)"
  using assms by (simp add: assignToStartingReplicas_def Let_def startingLoop_other_state)

lemma assignLoop_length [simp]:
  "length (requests (assignLoop act ws s)) = length (requests s)"
  using assignLoop_same [of s act ws] by (simp add: sameButCollections_def)

lemma tryAssignToReplicas_only_queued:
  assumes "i < length (requests s)" and "req_state (requests s ! i) \<noteq> Queued"
  shows "req_state (requests (tryAssignToReplicas s) ! i) = req_state (requests s ! i)"
proof -
  let ?w = "queueOrder (requests s)"
  let ?s1 = "assignLoop (activeOrder (replicas s)) ?w s"
  have nw: "i \<notin> set ?w" using assms(2) by (simp add: queueOrder_set)
  have s1: "req_state (requests ?s1 ! i) = req_state (requests s ! i)"
    using nw assms(1) by (rule assignLoop_other_state)
  have "i \<notin> set (stillWaiting ?s1)" using s1 assms(2) by (simp add: stillWaiting_def)
  then have "req_state (requests (assignToStartingReplicas (stillWaiting ?s1) ?s1) ! i)
               = req_state (requests ?s1 ! i)"
    using assms(1) by (intro assignToStartingReplicas_other_state) simp_all
  moreover have "req_state (requests (assignToStartingReplicas ?w s) ! i) = req_state (requests s ! i)"
    using nw assms(1) by (rule assignToStartingReplicas_other_state)
  ultimately show ?thesis using s1 by (simp add: tryAssignToReplicas_def Let_def)
qed

lemma scaleUpRule_calls:
  "scaleUpRule s = (if scaleUpCalls s then setTargetReplicas (scaleUpTarget s) s else s)"
  by (auto simp: scaleUpRule_def scaleUpCalls_def scaleUpTarget_def Let_def)

lemma scaleFromZeroRule_calls:
  "scaleFromZeroRule s
     = (if scaleFromZeroCalls s then setTargetReplicas (max 1 (minReplicas (config s))) s else s)"
  by (simp add: scaleFromZeroRule_def scaleFromZeroCalls_def)

lemma scaleDownRule_calls:
  "scaleDownRule s
     = (if scaleDownCalls s then setTargetReplicas (minReplicas (config s)) s else s)"
  by (auto simp: scaleDownRule_def scaleDownCalls_def Let_def)

lemma setTargetReplicas_lastActivity [simp]:
  "lastActivityTick (setTargetReplicas n s) = sim_tick s"
  by (simp add: setTargetReplicas_def)

lemma handleAutoscaling_lastActivity:
  "lastActivityTick (handleAutoscaling s)
     = (if autoscalerCalls s then sim_tick s else lastActivityTick s)"
proof -
  let ?s1 = "scaleUpRule s"
  let ?s2 = "scaleFromZeroRule ?s1"
  have c2: "scaleFromZeroCalls ?s1 = scaleFromZeroCalls s"
    by (simp add: scaleFromZeroCalls_def waitingCountOf_def processingCountOf_def totalReplicasOf_def)
  have l1: "lastActivityTick ?s1 = (if scaleUpCalls s then sim_tick s else lastActivityTick s)"
    by (simp add: scaleUpRule_calls)
  have l2: "lastActivityTick ?s2 = (if scaleFromZeroCalls s then sim_tick s else lastActivityTick ?s1)"
    using c2 by (simp add: scaleFromZeroRule_calls [of ?s1])
  have l3: "lastActivityTick (scaleDownRule ?s2)
              = (if scaleDownCalls ?s2 then sim_tick s else lastActivityTick ?s2)"
    by (simp add: scaleDownRule_calls [of ?s2])
  show ?thesis
    unfolding handleAutoscaling_def autoscalerCalls_def
    using l1 l2 l3 by simp
qed

lemma updateRequest_lastActivity:
  assumes "i < length (requests s)"
  shows "lastActivityTick (updateRequest i s)
           = (if activityAt s i then sim_tick s else lastActivityTick s)"
  using assms
  by (simp add: activityAt_def updateRequest_def upd_defs Let_def lerpRequest_def
      split: RequestState.splits option.splits)

lemma activityAt_other:
  assumes "k \<noteq> i" and "i < length (requests s)"
  shows "activityAt (updateRequest k s) i = activityAt s i"
proof -
  have e: "eraseTargetX (requests (updateRequest k s) ! i) = eraseTargetX (requests s ! i)"
    using assms by (rule updateRequest_other)
  show ?thesis
    using eraseTargetX_fields(1,4) [OF e] by (simp add: activityAt_def)
qed

lemma fold_updateRequest_lastActivity:
  assumes "distinct ks" and "\<forall>k \<in> set ks. k < length (requests s)"
  shows "lastActivityTick (fold updateRequest ks s)
           = (if \<exists>i \<in> set ks. activityAt s i then sim_tick s else lastActivityTick s)"
  using assms
proof (induction ks arbitrary: s)
  case Nil
  then show ?case by simp
next
  case (Cons k ks)
  let ?s1 = "updateRequest k s"
  have k: "k < length (requests s)" "k \<notin> set ks" "distinct ks" using Cons.prems by simp_all
  have same: "activityAt ?s1 i = activityAt s i" if "i \<in> set ks" for i
    using that k Cons.prems(2) by (intro activityAt_other) auto
  have "lastActivityTick (fold updateRequest ks ?s1)
          = (if \<exists>i \<in> set ks. activityAt ?s1 i then sim_tick ?s1 else lastActivityTick ?s1)"
    using Cons.prems k by (intro Cons.IH) simp_all
  also have "\<dots> = (if \<exists>i \<in> set ks. activityAt s i then sim_tick s else lastActivityTick ?s1)"
    using same by auto
  finally show ?case using updateRequest_lastActivity [OF k(1)] by auto
qed

lemma updateRequests_lastActivity:
  "lastActivityTick (updateRequests s)
     = (if \<exists>i < length (requests s). activityAt s i then sim_tick s else lastActivityTick s)"
  unfolding updateRequests_def
  by (subst fold_updateRequest_lastActivity) auto

lemma activityAt_clock:
  "activityAt (s\<lparr>sim_tick := t\<rparr>) i
     = (req_state (requests s ! i) = Validating
        \<or> (req_state (requests s ! i) = Processing
           \<and> t - orZero (processStartedAt (requests s ! i)) > modelProcessingTimeMs (config s)))"
  by (simp add: activityAt_def)

lemma tick_lastActivity:
  assumes "\<not> paused s"
  shows "lastActivityTick (tick deltaMs s)
           = (if (\<exists>i < length (requests s). activityAt (s\<lparr>sim_tick := sim_tick s + deltaMs * speed s\<rparr>) i)
                 \<or> autoscalerCalls (beforeAutoscaling deltaMs s)
              then sim_tick s + deltaMs * speed s else lastActivityTick s)"
proof -
  let ?s0 = "s\<lparr>sim_tick := sim_tick s + deltaMs * speed s\<rparr>"
  let ?t = "beforeAutoscaling deltaMs s"
  have "lastActivityTick (tick deltaMs s) = lastActivityTick (handleAutoscaling ?t)"
    using assms by (simp add: tick_def beforeAutoscaling_def)
  also have "\<dots> = (if autoscalerCalls ?t then sim_tick ?t else lastActivityTick ?t)"
    by (rule handleAutoscaling_lastActivity)
  also have "sim_tick ?t = sim_tick s + deltaMs * speed s"
    by (simp add: beforeAutoscaling_def)
  also have "lastActivityTick ?t = lastActivityTick (updateRequests ?s0)"
    by (simp add: beforeAutoscaling_def)
  also have "\<dots> = (if \<exists>i < length (requests s). activityAt ?s0 i
                     then sim_tick s + deltaMs * speed s else lastActivityTick s)"
    by (auto simp: updateRequests_lastActivity)
  finally show ?thesis by auto
qed

section \<open>C6: expiry comes before dispatch\<close>

text \<open>
  C6. In an unpaused \<open>tick\<close> (with a queue time limit that is not negative) the expiry
  check runs on every queued request before the dispatcher does: a request that is
  \<open>queued\<close> when the step starts and whose wait since \<open>queuedAt\<close>, at the new
  tick, exceeds \<open>maxTimeInQueueMs\<close> is \<open>expired\<close> when the update loop ends; in the
  state the dispatcher runs on, every request still \<open>queued\<close> has waited at most
  \<open>maxTimeInQueueMs\<close>; and the dispatcher changes the state of no request that is not
  \<open>queued\<close>. So no request is given to a replica after its threshold is crossed.
\<close>

theorem C6_expiry_before_dispatch:
  assumes "\<not> paused s" and "0 \<le> maxTimeInQueueMs (config s)"
  shows "tick deltaMs s = updateMetrics (tryAssignToReplicas (beforeDispatch deltaMs s))
       \<and> (\<forall>i < length (requests s).
             req_state (requests s ! i) = Queued
             \<and> sim_tick s + deltaMs * speed s - orZero (queuedAt (requests s ! i))
                 > maxTimeInQueueMs (config s)
             \<longrightarrow> req_state (requests (updateRequests (s\<lparr>sim_tick := sim_tick s + deltaMs * speed s\<rparr>)) ! i)
                   = Expired)
       \<and> (\<forall>r \<in> set (requests (beforeDispatch deltaMs s)).
             req_state r = Queued
             \<longrightarrow> sim_tick (beforeDispatch deltaMs s) - orZero (queuedAt r)
                   \<le> maxTimeInQueueMs (config s))
       \<and> (\<forall>i < length (requests (beforeDispatch deltaMs s)).
             req_state (requests (beforeDispatch deltaMs s) ! i) \<noteq> Queued
             \<longrightarrow> req_state (requests (tryAssignToReplicas (beforeDispatch deltaMs s)) ! i)
                   = req_state (requests (beforeDispatch deltaMs s) ! i))"
proof (intro conjI)
  show "tick deltaMs s = updateMetrics (tryAssignToReplicas (beforeDispatch deltaMs s))"
    using assms(1) by (simp add: tick_stages)
next
  let ?s0 = "s\<lparr>sim_tick := sim_tick s + deltaMs * speed s\<rparr>"
  show "\<forall>i < length (requests s).
             req_state (requests s ! i) = Queued
             \<and> sim_tick s + deltaMs * speed s - orZero (queuedAt (requests s ! i))
                 > maxTimeInQueueMs (config s)
             \<longrightarrow> req_state (requests (updateRequests ?s0) ! i) = Expired"
  proof (intro allI impI)
    fix i
    assume "i < length (requests s)"
      and "req_state (requests s ! i) = Queued
             \<and> sim_tick s + deltaMs * speed s - orZero (queuedAt (requests s ! i))
                 > maxTimeInQueueMs (config s)"
    then show "req_state (requests (updateRequests ?s0) ! i) = Expired"
      by (intro updateRequests_queued_expires) simp_all
  qed
next
  have "config (beforeDispatch deltaMs s) = config s" by (simp add: beforeDispatch_def)
  then show "\<forall>r \<in> set (requests (beforeDispatch deltaMs s)).
             req_state r = Queued
             \<longrightarrow> sim_tick (beforeDispatch deltaMs s) - orZero (queuedAt r)
                   \<le> maxTimeInQueueMs (config s)"
    using withinTtl_beforeDispatch [OF assms(2), of deltaMs] by (simp add: withinTtl_def)
next
  show "\<forall>i < length (requests (beforeDispatch deltaMs s)).
             req_state (requests (beforeDispatch deltaMs s) ! i) \<noteq> Queued
             \<longrightarrow> req_state (requests (tryAssignToReplicas (beforeDispatch deltaMs s)) ! i)
                   = req_state (requests (beforeDispatch deltaMs s) ! i)"
    by (simp add: tryAssignToReplicas_only_queued)
qed

theorem C6_expiry_before_dispatch_witness:
  "req_state (requests (updateRequests
      (exampleTie\<lparr>sim_tick := sim_tick exampleTie + 20000 * speed exampleTie\<rparr>)) ! 0) = Expired"
  using C6_expiry_before_dispatch [of exampleTie 20000, THEN conjunct2, THEN conjunct1,
      rule_format, of 0]
  by (simp add: exampleTie_def newSimulation_def DEFAULT_CONFIG_def orZero_def)

section \<open>C8: what moves the idle timer\<close>

text \<open>
  C8 (as amended). \<open>lastActivityTick\<close> after each public operation, in terms of the
  state before it. \<open>addRequest\<close> and \<open>setTargetReplicas\<close> set it to the current tick
  and \<open>reset\<close> to 0. An unpaused \<open>tick\<close> sets it to the new tick exactly when, in
  that step, a request is admitted to the queue (it was \<open>validating\<close>), a request
  completes its processing phase, or the autoscaler itself calls \<open>setTargetReplicas\<close>
  (scale-up, scale from zero or scale-down); otherwise, and in every other operation, it
  is unchanged. Idle replicas alone never move it.
\<close>

theorem C8_lastActivity_by_operation:
  "lastActivityTick (applyOp op s) =
     (case op of
        Tick deltaMs \<Rightarrow>
          if paused s then lastActivityTick s
          else if (\<exists>i < length (requests s).
                     activityAt (s\<lparr>sim_tick := sim_tick s + deltaMs * speed s\<rparr>) i)
                  \<or> autoscalerCalls (beforeAutoscaling deltaMs s)
               then sim_tick s + deltaMs * speed s
               else lastActivityTick s
      | AddRequest p \<Rightarrow> sim_tick s
      | SetTargetReplicas n \<Rightarrow> sim_tick s
      | Reset \<Rightarrow> 0
      | _ \<Rightarrow> lastActivityTick s)"
proof (cases op)
  case (Tick deltaMs)
  show ?thesis
  proof (cases "paused s")
    case True
    then show ?thesis using Tick by (simp add: tick_def)
  next
    case False
    then show ?thesis using Tick tick_lastActivity [OF False, of deltaMs] by simp
  qed
next
  case Reset
  then show ?thesis by (simp add: reset_def Let_def)
qed (simp_all add: addRequest_def setSpeed_def setPaused_def togglePause_def setConfig_def
      recordCompleted_def recordFailed_def recordExpired_def)

theorem C8_lastActivity_by_operation_witness:
  "lastActivityTick (applyOp (Tick 16) (addRequest 1 (newSimulation DEFAULT_CONFIG))) = 0"
  using C8_lastActivity_by_operation [of "Tick 16" "addRequest 1 (newSimulation DEFAULT_CONFIG)"]
  by (simp add: activityAt_def autoscalerCalls_def scaleUpCalls_def scaleFromZeroCalls_def
      scaleDownCalls_def beforeAutoscaling_def sim_eval)

text \<open>
  The claim as stated fails: with no request in the engine at all, a \<open>tick\<close> in which
  the autoscaler scales the idle pool down moves \<open>lastActivityTick\<close> from 0 to 18001,
  and \<open>reset\<close> moves it back to 0.
\<close>

theorem C8_moved_by_autoscaler_and_reset:
  "requests (run [SetTargetReplicas 1, Tick 1, Tick 3000] (newSimulation DEFAULT_CONFIG)) = []
   \<and> lastActivityTick (run [SetTargetReplicas 1, Tick 1, Tick 3000] (newSimulation DEFAULT_CONFIG)) = 0
   \<and> lastActivityTick (run [SetTargetReplicas 1, Tick 1, Tick 3000, Tick 15000]
                          (newSimulation DEFAULT_CONFIG)) = 18001
   \<and> lastActivityTick (run [SetTargetReplicas 1, Tick 1, Tick 3000, Tick 15000, Reset]
                          (newSimulation DEFAULT_CONFIG)) = 0"
  by (simp add: sim_eval)

lemma eraseTargetX_completedAt:
  assumes "eraseTargetX r' = eraseTargetX r"
  shows "completedAt r' = completedAt r"
proof -
  have "completedAt (eraseTargetX r') = completedAt (eraseTargetX r)" using assms by simp
  then show ?thesis by (simp add: eraseTargetX_def)
qed

lemma timelyRequest_erase:
  assumes "eraseTargetX r' = eraseTargetX r" and "sim_tick s' = sim_tick s" and "config s' = config s"
  shows "timelyRequest s' r' = timelyRequest s r"
  using eraseTargetX_fields(1,4) [OF assms(1)] eraseTargetX_completedAt [OF assms(1)] assms(2,3)
  by (simp add: timelyRequest_def)

lemma timelyReplica_frame:
  assumes "sim_tick s' = sim_tick s" and "config s' = config s"
  shows "timelyReplica s' rp = timelyReplica s rp"
  using assms by (simp add: timelyReplica_def)

lemma timely_advance:
  assumes "timely s" and "0 \<le> d"
  shows "timely (s\<lparr>sim_tick := sim_tick s + d * speed s\<rparr>)"
proof -
  have later: "sim_tick s \<le> sim_tick s + d * speed s" using assms by (simp add: timely_def)
  have "timelyReplica (s\<lparr>sim_tick := sim_tick s + d * speed s\<rparr>) rp" if "timelyReplica s rp" for rp
    using that later by (auto simp: timelyReplica_def)
  moreover have "timelyRequest (s\<lparr>sim_tick := sim_tick s + d * speed s\<rparr>) r" if "timelyRequest s r" for r
    using that later by (auto simp: timelyRequest_def)
  ultimately show ?thesis
    using assms(1) later by (simp add: timely_def timelyReplicas_def timelyRequests_def)
qed

lemma timelyReplicas_same:
  "replicas s' = replicas s \<Longrightarrow> sim_tick s' = sim_tick s \<Longrightarrow> config s' = config s
     \<Longrightarrow> timelyReplicas s' = timelyReplicas s"
  by (simp add: timelyReplicas_def timelyReplica_def)

lemma timelyRequests_same:
  "requests s' = requests s \<Longrightarrow> sim_tick s' = sim_tick s \<Longrightarrow> config s' = config s
     \<Longrightarrow> timelyRequests s' = timelyRequests s"
  by (simp add: timelyRequests_def timelyRequest_def)

lemma timelyReplicas_modReplica:
  assumes "timelyReplicas s"
    and "j < length (replicas s) \<Longrightarrow> timelyReplica s (f (replicas s ! j))"
  shows "timelyReplicas (modReplica j f s)"
  unfolding timelyReplicas_def
proof (intro allI impI)
  fix i
  assume "i < length (replicas (modReplica j f s))"
  then have i: "i < length (replicas s)" by simp
  have fr: "timelyReplica (modReplica j f s) rp = timelyReplica s rp" for rp
    by (rule timelyReplica_frame) simp_all
  show "timelyReplica (modReplica j f s) (replicas (modReplica j f s) ! i)"
  proof (cases "i = j")
    case True
    then show ?thesis using assms(2) i fr by simp
  next
    case False
    then show ?thesis using assms(1) i fr by (simp add: timelyReplicas_def)
  qed
qed

lemma timelyReplica_active:
  "coldStartTimeMs (config s) \<le> sim_tick s \<Longrightarrow> timelyReplica s (recomputeState ct rp)"
  by (simp add: timelyReplica_def recomputeState_def)

lemma timelyReplica_ids:
  "timelyReplica s rp \<Longrightarrow> timelyReplica s (rp\<lparr>currentRequestIds := ids\<rparr>)"
  by (simp add: timelyReplica_def)

lemma timelyReplicas_updWaitingForModel:
  assumes "timelyReplicas s"
  shows "timelyReplicas (updWaitingForModel i s)"
proof -
  let ?ct = "concurrencyTarget (config s)"
  let ?r = "requests s ! i"
  have claim: "timelyReplicas
       (modRequest i g2
          (modReplica j (\<lambda>rp. recomputeState ?ct (rp\<lparr>currentRequestIds := currentRequestIds rp @ [req_id ?r]\<rparr>))
             (modRequest i g1 s)))"
    if "rep_state (replicas s ! j) = Ready" for j g1 g2
  proof -
    have "timelyReplicas (modReplica j (\<lambda>rp. recomputeState ?ct (rp\<lparr>currentRequestIds := currentRequestIds rp @ [req_id ?r]\<rparr>)) s)"
    proof (rule timelyReplicas_modReplica [OF assms])
      assume "j < length (replicas s)"
      then have "timelyReplica s (replicas s ! j)" using assms by (simp add: timelyReplicas_def)
      then have "coldStartTimeMs (config s) \<le> sim_tick s" using that by (simp add: timelyReplica_def)
      then show "timelyReplica s (recomputeState ?ct ((replicas s ! j)\<lparr>currentRequestIds := currentRequestIds (replicas s ! j) @ [req_id ?r]\<rparr>))"
        by (rule timelyReplica_active)
    qed
    then show ?thesis by (simp add: timelyReplicas_def timelyReplica_def modReplica_def)
  qed
  have release: "timelyReplicas (modReplica j (\<lambda>rp. rp\<lparr>currentRequestIds := filter P (currentRequestIds rp)\<rparr>) t)"
    if "timelyReplicas t" for t j P
    using that
  proof (rule timelyReplicas_modReplica)
    assume "j < length (replicas t)"
    then show "timelyReplica t ((replicas t ! j)\<lparr>currentRequestIds := filter P (currentRequestIds (replicas t ! j))\<rparr>)"
      using that by (simp add: timelyReplicas_def timelyReplica_ids)
  qed
  have expire: "timelyReplicas (modRequest i g t)" if "timelyReplicas t" for t g
    using that by (simp add: timelyReplicas_def timelyReplica_def)
  show ?thesis
    unfolding updWaitingForModel_def Let_def
    using assms claim release expire
    by (auto split: option.splits)
qed

lemma timelyReplicas_updProcessing:
  assumes "timelyReplicas s" and "timelyRequests s" and "i < length (requests s)"
    and "req_state (requests s ! i) = Processing"
  shows "timelyReplicas (updProcessing i s)"
proof -
  have "timelyRequest s (requests s ! i)" using assms(2,3) by (simp add: timelyRequests_def)
  then have warm: "coldStartTimeMs (config s) \<le> sim_tick s"
    using assms(4) by (simp add: timelyRequest_def)
  have rel: "timelyReplicas (modReplica j (\<lambda>rp. recomputeState (concurrencyTarget (config s))
                (rp\<lparr>currentRequestIds := filter P (currentRequestIds rp)\<rparr>)) s)" for j P
    by (rule timelyReplicas_modReplica [OF assms(1)]) (rule timelyReplica_active [OF warm])
  have "timelyReplicas (modRequest i g t) = timelyReplicas t" for g t
    by (simp add: timelyReplicas_def timelyReplica_def)
  moreover have "timelyReplicas (t\<lparr>lastActivityTick := v\<rparr>) = timelyReplicas t" for t v
    by (simp add: timelyReplicas_def timelyReplica_def)
  ultimately show ?thesis
    unfolding updProcessing_def Let_def
    using assms(1) rel by (auto split: option.splits)
qed

lemma timelyReplicas_updateRequest:
  assumes "timelyReplicas s" and "timelyRequests s" and "k < length (requests s)"
  shows "timelyReplicas (updateRequest k s)"
proof -
  let ?s = "modRequest k lerpRequest s"
  have l: "timelyReplicas ?s" using assms(1) by (simp add: timelyReplicas_def timelyReplica_def)
  have st: "req_state (requests ?s ! k) = req_state (requests s ! k)"
    and pst: "processStartedAt (requests ?s ! k) = processStartedAt (requests s ! k)"
    using assms(3) by (simp_all add: lerpRequest_def)
  have q: "timelyRequests ?s"
    unfolding timelyRequests_def
  proof (intro allI impI)
    fix i
    assume "i < length (requests ?s)"
    then have i: "i < length (requests s)" by simp
    then have "timelyRequest s (requests s ! i)" using assms(2) by (simp add: timelyRequests_def)
    then show "timelyRequest ?s (requests ?s ! i)"
      using i by (cases "i = k") (simp_all add: timelyRequest_def lerpRequest_def)
  qed
  show ?thesis
  proof (cases "req_state (requests ?s ! k)")
    case WaitingForModel
    then show ?thesis using timelyReplicas_updWaitingForModel [OF l] by (simp add: updateRequest_def)
  next
    case Processing
    then show ?thesis
      using timelyReplicas_updProcessing [OF l q _ Processing] assms(3)
      by (simp add: updateRequest_def)
  qed (use l in \<open>simp_all add: updateRequest_def timelyReplicas_def timelyReplica_def
         upd_other_replicas upd_config updEntering_def updValidating_def updQueued_def
         updDelivering_def updCompleted_def updFailed_def updExpired_def Let_def\<close>)
qed

lemma timelyRequest_updateRequest_self:
  assumes "timelyReplicas s" and "timelyRequests s" and "k < length (requests s)"
  shows "timelyRequest s (requests (updateRequest k s) ! k)"
proof -
  have r: "timelyRequest s (requests s ! k)" using assms(2,3) by (simp add: timelyRequests_def)
  show ?thesis
  proof (cases "req_state (requests s ! k) = WaitingForModel")
    case False
    then show ?thesis
      using r assms(3)
      by (simp add: timelyRequest_def updateRequest_def updEntering_def updValidating_def
          updQueued_def updProcessing_def updDelivering_def updCompleted_def updFailed_def
          updExpired_def Let_def fadeOut_def lerpRequest_def orZero_def
          split: RequestState.splits option.splits)
  next
    case True
    have warm: "coldStartTimeMs (config s) \<le> sim_tick s"
      if "findIndex P (replicas s) = Some j" "rep_state (replicas s ! j) = Ready" for P j
    proof -
      have "j < length (replicas s)" using that(1) by (simp add: findIndex_Some)
      then have "timelyReplica s (replicas s ! j)" using assms(1) by (simp add: timelyReplicas_def)
      then show ?thesis using that(2) by (simp add: timelyReplica_def)
    qed
    show ?thesis
      using True assms(3) warm
      by (auto simp: timelyRequest_def updateRequest_def updWaitingForModel_def Let_def
          lerpRequest_def orZero_def split: option.splits)
  qed
qed

lemma timely_updateRequest:
  assumes "timely s" and "k < length (requests s)"
  shows "timely (updateRequest k s)"
proof -
  have R: "timelyReplicas s" and Q: "timelyRequests s" using assms(1) by (simp_all add: timely_def)
  have "timelyRequests (updateRequest k s)"
    unfolding timelyRequests_def
  proof (intro allI impI)
    fix i
    assume "i < length (requests (updateRequest k s))"
    then have i: "i < length (requests s)" by simp
    have fr: "timelyRequest (updateRequest k s) r = timelyRequest s r" for r
      by (simp add: timelyRequest_def)
    show "timelyRequest (updateRequest k s) (requests (updateRequest k s) ! i)"
    proof (cases "i = k")
      case True
      then show ?thesis using timelyRequest_updateRequest_self [OF R Q assms(2)] fr by simp
    next
      case False
      then have "eraseTargetX (requests (updateRequest k s) ! i) = eraseTargetX (requests s ! i)"
        using i by (intro updateRequest_other) simp_all
      then have "timelyRequest (updateRequest k s) (requests (updateRequest k s) ! i)
                   = timelyRequest s (requests s ! i)"
        by (rule timelyRequest_erase) simp_all
      then show ?thesis using Q i by (simp add: timelyRequests_def)
    qed
  qed
  then show ?thesis
    using assms(1) timelyReplicas_updateRequest [OF R Q assms(2)] by (simp add: timely_def)
qed

lemma timely_updateRequests: "timely s \<Longrightarrow> timely (updateRequests s)"
proof -
  assume t: "timely s"
  have "timely (fold updateRequest ks s) \<and> length (requests (fold updateRequest ks s)) = length (requests s)"
    if "\<forall>k \<in> set ks. k < length (requests s)" for ks
    using that t
  proof (induction ks arbitrary: s)
    case Nil
    then show ?case by simp
  next
    case (Cons k ks)
    have "timely (updateRequest k s)" using Cons.prems by (simp add: timely_updateRequest)
    moreover have "\<forall>k \<in> set ks. k < length (requests (updateRequest k s))"
      using Cons.prems(1) by simp
    ultimately show ?case using Cons.IH [of "updateRequest k s"] by simp
  qed
  then show ?thesis by (simp add: updateRequests_def)
qed

lemma timely_updateReplicas: "timely s \<Longrightarrow> timely (updateReplicas s)"
proof -
  assume t: "timely s"
  have "timelyReplica s (updateReplica (sim_tick s) (config s) rp)" if "timelyReplica s rp" for rp
  proof (cases "rep_state rp = Starting \<and> truthy (startingAt rp)
                  \<and> sim_tick s - orZero (startingAt rp) \<ge> coldStartTimeMs (config s)")
    case True
    then have "coldStartTimeMs (config s) \<le> sim_tick s"
      using that by (simp add: timelyReplica_def)
    then show ?thesis using True that by (auto simp: timelyReplica_def updateReplica_def Let_def)
  next
    case False
    then show ?thesis using that by (auto simp: timelyReplica_def updateReplica_def Let_def)
  qed
  moreover have "timelyReplica (updateReplicas s) rp = timelyReplica s rp" for rp
    by (rule timelyReplica_frame) simp_all
  ultimately have "timelyReplicas (updateReplicas s)"
    using t by (simp add: timely_def timelyReplicas_def) (simp add: updateReplicas_def)
  moreover have "timelyRequests (updateReplicas s) = timelyRequests s"
    by (rule timelyRequests_same) simp_all
  ultimately show ?thesis using t by (simp add: timely_def)
qed

lemma timely_removeExited: "timely s \<Longrightarrow> timely (removeExited s)"
proof -
  assume t: "timely s"
  have "timelyReplicas (removeExited s) = timelyReplicas s"
    by (rule timelyReplicas_same) simp_all
  moreover have "timelyRequests (removeExited s)"
  proof -
    have "\<forall>r \<in> set (requests s). timelyRequest s r"
      using t by (auto simp: timely_def timelyRequests_def in_set_conv_nth)
    then have "\<forall>r \<in> set (requests (removeExited s)). timelyRequest s r"
      by (simp add: removeExited_def)
    then show ?thesis by (simp add: timelyRequests_def timelyRequest_def)
  qed
  ultimately show ?thesis using t by (simp add: timely_def)
qed

lemma timely_handleAutoscaling: "timely s \<Longrightarrow> timely (handleAutoscaling s)"
proof -
  assume t: "timely s"
  have "timely (scaleDownRule (scaleFromZeroRule (scaleUpRule s)))"
    using t by (simp add: timely_def timelyReplicas_def timelyRequests_def timelyReplica_def
        timelyRequest_def)
  then show ?thesis
    unfolding handleAutoscaling_def
  proof (rule reconcileReplicas_rule)
    fix t j
    assume t: "timely t"
    then have "timelyReplica t (restartReplica (sim_tick t) (replicas t ! j))"
      by (simp add: timelyReplica_def restartReplica_def timely_def orZero_def)
    then have "timelyReplicas (modReplica j (restartReplica (sim_tick t)) t)"
      using t by (intro timelyReplicas_modReplica) (simp_all add: timely_def)
    moreover have "timelyRequests (modReplica j (restartReplica (sim_tick t)) t) = timelyRequests t"
      by (rule timelyRequests_same) simp_all
    ultimately show "timely (modReplica j (restartReplica (sim_tick t)) t)"
      using t by (simp add: timely_def)
  next
    fix t
    assume t: "timely t"
    let ?t' = "t\<lparr>replicas := replicas t @ [newReplica (nextReplicaId t) (sim_tick t)],
                    nextReplicaId := nextReplicaId t + 1\<rparr>"
    have "timelyReplicas ?t'"
      using t by (auto simp: timely_def timelyReplicas_def nth_append timelyReplica_def
          newReplica_def orZero_def)
    moreover have "timelyRequests ?t' = timelyRequests t"
      by (rule timelyRequests_same) simp_all
    ultimately show "timely ?t'" using t by (simp add: timely_def)
  next
    fix t j
    assume t: "timely t"
      and f: "findIndex (\<lambda>rp. rep_state rp = Ready \<and> length (currentRequestIds rp) = 0) (replicas t) = Some j"
    have j: "j < length (replicas t)" "rep_state (replicas t ! j) = Ready"
      using findIndex_Some [OF f] by simp_all
    then have "timelyReplica t (replicas t ! j)" using t by (simp add: timely_def timelyReplicas_def)
    then have "timelyReplica t (stopReplica (sim_tick t) (replicas t ! j))"
      using j by (simp add: timelyReplica_def stopReplica_def)
    then have "timelyReplicas (modReplica j (stopReplica (sim_tick t)) t)"
      using t by (intro timelyReplicas_modReplica) (simp_all add: timely_def)
    moreover have "timelyRequests (modReplica j (stopReplica (sim_tick t)) t) = timelyRequests t"
      by (rule timelyRequests_same) simp_all
    ultimately show "timely (modReplica j (stopReplica (sim_tick t)) t)"
      using t by (simp add: timely_def)
  qed
qed

lemma timelyRequests_pointwise:
  assumes "timelyRequests s" and "length (requests s') = length (requests s)"
    and "sim_tick s' = sim_tick s" and "config s' = config s"
    and "\<And>i. i < length (requests s) \<Longrightarrow> i \<noteq> ri \<Longrightarrow>
           eraseTargetX (requests s' ! i) = eraseTargetX (requests s ! i)"
    and "ri < length (requests s) \<Longrightarrow> timelyRequest s (requests s' ! ri)"
  shows "timelyRequests s'"
  unfolding timelyRequests_def
proof (intro allI impI)
  fix i
  assume "i < length (requests s')"
  then have i: "i < length (requests s)" using assms(2) by simp
  have fr: "timelyRequest s' r = timelyRequest s r" for r
    using assms(3,4) by (simp add: timelyRequest_def)
  show "timelyRequest s' (requests s' ! i)"
  proof (cases "i = ri")
    case True
    then show ?thesis using assms(6) i fr by simp
  next
    case False
    have "timelyRequest s' (requests s' ! i) = timelyRequest s (requests s ! i)"
      using assms(3,4) by (intro timelyRequest_erase assms(5) [OF i False])
    then show ?thesis using assms(1) i by (simp add: timelyRequests_def)
  qed
qed

lemma assignTo_other_erase:
  assumes "i < length (requests s)" and "i \<noteq> ri"
  shows "eraseTargetX (requests (assignTo act ri k s) ! i) = eraseTargetX (requests s ! i)"
  using assms by (simp add: assignTo_def Let_def repositionQueue_nth_erase)

lemma parkOnStarting_other_erase:
  assumes "i < length (requests s)" and "i \<noteq> ri"
  shows "eraseTargetX (requests (parkOnStarting ri rid w s) ! i) = eraseTargetX (requests s ! i)"
  using assms by (simp add: parkOnStarting_def repositionQueue_nth_erase)

lemma timely_assignTo:
  assumes "timely s" and "coldStartTimeMs (config s) \<le> sim_tick s"
  shows "timely (assignTo act ri k s)"
proof -
  let ?s' = "assignTo act ri k s"
  have fr: "sim_tick ?s' = sim_tick s" "config ?s' = config s" "speed ?s' = speed s"
    using assignTo_same [of s act ri k] by (simp_all add: sameButCollections_def)
  have "timelyRequests ?s'"
  proof (rule timelyRequests_pointwise [where ri = ri and s = s])
    show "timelyRequests s" using assms(1) by (simp add: timely_def)
    show "ri < length (requests s) \<Longrightarrow> timelyRequest s (requests ?s' ! ri)"
      using assms(2) by (simp add: timelyRequest_def assignTo_def Let_def orZero_def)
  qed (simp_all add: fr assignTo_other_erase)
  moreover have "timelyReplicas ?s'"
  proof -
    have "timelyReplicas (modReplica (act ! k)
            (\<lambda>rp. recomputeState (concurrencyTarget (config s))
                     (rp\<lparr>currentRequestIds := currentRequestIds rp @ [req_id (requests s ! ri)]\<rparr>)) s)"
      using assms by (intro timelyReplicas_modReplica timelyReplica_active) (simp_all add: timely_def)
    then show ?thesis
      by (simp add: timelyReplicas_def timelyReplica_def assignTo_def Let_def modReplica_def)
  qed
  ultimately show ?thesis using assms(1) fr by (simp add: timely_def)
qed

lemma timely_parkOnStarting:
  assumes "timely s"
  shows "timely (parkOnStarting ri rid w s)"
proof -
  let ?s' = "parkOnStarting ri rid w s"
  have fr: "sim_tick ?s' = sim_tick s" "config ?s' = config s" "speed ?s' = speed s"
    using parkOnStarting_same [of s ri rid w] by (simp_all add: sameButCollections_def)
  have "timelyRequests ?s'"
  proof (rule timelyRequests_pointwise [where ri = ri and s = s])
    show "timelyRequests s" using assms(1) by (simp add: timely_def)
    show "ri < length (requests s) \<Longrightarrow> timelyRequest s (requests ?s' ! ri)"
      by (simp add: timelyRequest_def parkOnStarting_def)
  qed (simp_all add: fr parkOnStarting_other_erase)
  moreover have "timelyReplicas ?s' = timelyReplicas s"
    by (rule timelyReplicas_same) (simp_all add: fr)
  ultimately show ?thesis using assms(1) fr by (simp add: timely_def)
qed

lemma timely_tryAssign: "timely s \<Longrightarrow> timely (tryAssignToReplicas s)"
proof -
  assume t: "timely s"
  let ?P = "\<lambda>t. timely t \<and> sim_tick t = sim_tick s \<and> config t = config s"
  have "?P (tryAssignToReplicas s)"
  proof (rule tryAssignToReplicas_rule [where P = ?P and ?s0.0 = s])
    show "?P s" using t by simp
  next
    fix u ri k
    assume u: "?P u" and f: "findSlot (activeOrder (replicas s)) u = Some k"
    have "k < length (activeOrder (replicas s))" using findSlot_Some(2) [OF f] .
    then have "activeOrder (replicas s) ! k \<in> set (activeOrder (replicas s))" by simp
    then obtain j where j: "j < length (replicas s)" "rep_state (replicas s ! j) \<noteq> Starting"
      by (auto simp: activeOrder_set)
    then have "timelyReplica s (replicas s ! j)" using t by (simp add: timely_def timelyReplicas_def)
    then have "coldStartTimeMs (config s) \<le> sim_tick s" using j by (simp add: timelyReplica_def)
    then have "timely (assignTo (activeOrder (replicas s)) ri k u)"
      using u by (intro timely_assignTo) simp_all
    moreover have "sameButCollections u (assignTo (activeOrder (replicas s)) ri k u)"
      by (rule assignTo_same)
    ultimately show "?P (assignTo (activeOrder (replicas s)) ri k u)"
      using u by (simp add: sameButCollections_def)
  next
    fix u ri rid w
    assume u: "?P u"
    have "sameButCollections u (parkOnStarting ri rid w u)" by (rule parkOnStarting_same)
    then show "?P (parkOnStarting ri rid w u)"
      using u by (simp add: sameButCollections_def timely_parkOnStarting)
  qed simp
  then show ?thesis by simp
qed

lemma timely_tick:
  assumes "timely s" and "0 \<le> d"
  shows "timely (tick d s)"
proof -
  let ?s0 = "s\<lparr>sim_tick := sim_tick s + d * speed s\<rparr>"
  have "timely ?s0" using assms by (rule timely_advance)
  then have "timely (tryAssignToReplicas (handleAutoscaling (removeExited (updateReplicas (updateRequests ?s0)))))"
    by (intro timely_tryAssign timely_handleAutoscaling timely_removeExited timely_updateReplicas
        timely_updateRequests)
  then have "timely (updateMetrics (tryAssignToReplicas (handleAutoscaling (removeExited (updateReplicas (updateRequests ?s0))))))"
    by (simp add: timely_def timelyReplicas_def timelyRequests_def timelyReplica_def
        timelyRequest_def)
  then show ?thesis using assms(1) by (simp add: tick_def)
qed

lemma timely_addRequest: "timely s \<Longrightarrow> timely (addRequest p s)"
  by (auto simp: timely_def timelyReplicas_def timelyRequests_def timelyReplica_def
      timelyRequest_def addRequest_def nth_append)

lemma timely_new: "timely (newSimulation cfg)"
  by (simp add: timely_def timelyReplicas_def timelyRequests_def newSimulation_def Let_def
      setTargetReplicas_def)

lemma timely_ticks:
  assumes "timely s" and "\<forall>d \<in> set ds. 0 \<le> d"
  shows "timely (run (map Tick ds) s)"
  using assms
proof (induction ds arbitrary: s)
  case Nil
  then show ?case by simp
next
  case (Cons d ds)
  then show ?case by (simp add: timely_tick)
qed

lemma config_ticks [simp]: "config (run (map Tick ds) s) = config s"
  by (induction ds arbitrary: s) simp_all

lemma observe_numeral [simp]:
  "observe (numeral k) d s = snapshot s # observe (pred_numeral k) d (tick d s)"
  by (simp add: numeral_eq_Suc)

text \<open>The default configuration, one request admitted at tick 0, and 87 steps of 250 ms,
  as runs of equal snapshots.\<close>

lemma cold_start_timeline:
  "runLengths (observe 87 250 (addRequest 1 (newSimulation DEFAULT_CONFIG))) =
     [(([(Entering, None, None, None)], []), 32),
      (([(Validating, None, None, None)], []), 1),
      (([(WaitingForModel, Some 8250, None, None)], [(Starting, Some 8250)]), 12),
      (([(WaitingForModel, Some 8250, None, None)], [(Ready, None)]), 1),
      (([(Processing, Some 8250, Some 11500, None)], [(Busy, None)]), 9),
      (([(Delivering, Some 8250, Some 11500, None)], [(Ready, None)]), 32),
      (([(Completed, Some 8250, Some 11500, Some 21750)], [(Ready, None)]), 1)]"
  by (simp add: snapshot_def sim_eval)

lemma expand_runLengths: "expand (runLengths ys) = ys"
proof (induction ys)
  case Nil
  then show ?case by simp
next
  case (Cons y ys)
  show ?case
  proof (cases "runLengths ys")
    case Nil
    then show ?thesis using Cons by simp
  next
    case (Cons p rest)
    obtain z n where p: "p = (z, n)" by (cases p)
    show ?thesis using Cons.IH Cons p by (cases "y = z") auto
  qed
qed

lemma observe_nth: "k \<le> n \<Longrightarrow> observe n d s ! k = snapshot (advanceSteps k d s)"
proof (induction n arbitrary: k s)
  case 0
  then show ?case by simp
next
  case (Suc n)
  then show ?case by (cases k) simp_all
qed

lemma run_ticks_replicate: "run (map Tick (replicate k d)) s = advanceSteps k d s"
  by (simp add: run_replicate_Tick)

lemma tick_clock:
  "\<not> paused s \<Longrightarrow> sim_tick (tick d s) = sim_tick s + d * speed s"
  "paused (tick d s) = paused s"
  "speed (tick d s) = speed s"
  by (simp_all add: tick_def)

lemma advanceSteps_clock:
  "\<not> paused s \<Longrightarrow> sim_tick (advanceSteps n d s) = sim_tick s + real n * d * speed s"
proof (induction n arbitrary: s)
  case 0
  then show ?case by simp
next
  case (Suc n)
  then show ?case by (simp add: tick_clock algebra_simps)
qed

lemma cold_start_observed:
  "observe 87 250 (addRequest 1 (newSimulation DEFAULT_CONFIG)) =
     expand
       [(([(Entering, None, None, None)], []), 32),
        (([(Validating, None, None, None)], []), 1),
        (([(WaitingForModel, Some 8250, None, None)], [(Starting, Some 8250)]), 12),
        (([(WaitingForModel, Some 8250, None, None)], [(Ready, None)]), 1),
        (([(Processing, Some 8250, Some 11500, None)], [(Busy, None)]), 9),
        (([(Delivering, Some 8250, Some 11500, None)], [(Ready, None)]), 32),
        (([(Completed, Some 8250, Some 11500, Some 21750)], [(Ready, None)]), 1)]"
  using expand_runLengths [of "observe 87 250 (addRequest 1 (newSimulation DEFAULT_CONFIG))"]
  by (simp only: cold_start_timeline)

lemma cold_start_steps:
  "snapshot (advanceSteps 33 250 (addRequest 1 (newSimulation DEFAULT_CONFIG)))
     = ([(WaitingForModel, Some 8250, None, None)], [(Starting, Some 8250)])"
  "snapshot (advanceSteps 45 250 (addRequest 1 (newSimulation DEFAULT_CONFIG)))
     = ([(WaitingForModel, Some 8250, None, None)], [(Ready, None)])"
  "snapshot (advanceSteps 46 250 (addRequest 1 (newSimulation DEFAULT_CONFIG)))
     = ([(Processing, Some 8250, Some 11500, None)], [(Busy, None)])"
proof -
  let ?s0 = "addRequest 1 (newSimulation DEFAULT_CONFIG)"
  have n: "snapshot (advanceSteps k 250 ?s0) = observe 87 250 ?s0 ! k" if "k \<le> 87" for k
    using that by (simp only: observe_nth)
  show "snapshot (advanceSteps 33 250 ?s0)
     = ([(WaitingForModel, Some 8250, None, None)], [(Starting, Some 8250)])"
    by (subst n, simp, simp only: cold_start_observed) (simp add: nth_append)
  show "snapshot (advanceSteps 45 250 ?s0)
     = ([(WaitingForModel, Some 8250, None, None)], [(Ready, None)])"
    by (subst n, simp, simp only: cold_start_observed) (simp add: nth_append)
  show "snapshot (advanceSteps 46 250 ?s0)
     = ([(Processing, Some 8250, Some 11500, None)], [(Busy, None)])"
    by (subst n, simp, simp only: cold_start_observed) (simp add: nth_append)
qed

lemma timely_scenario:
  assumes "\<forall>d \<in> set ds. 0 \<le> d"
  shows "timely (run (AddRequest p # map Tick ds) (newSimulation cfg))"
  using assms by (simp add: timely_ticks timely_addRequest timely_new)

lemma config_scenario:
  "config (run (AddRequest p # map Tick ds) (newSimulation cfg)) = cfg"
  by (simp add: addRequest_def)

section \<open>C3: the cold-start scenario\<close>




text \<open>
  A replica whose \<open>startingAt\<close> is 0 never leaves \<open>starting\<close>: \<open>updateReplica\<close>
  tests the timestamp for truthiness. This is the case when the replica is created while
  the clock still stands at 0.
\<close>

lemma starting_at_zero_stays_starting:
  "rep_state rp = Starting \<Longrightarrow> startingAt rp = Some 0 \<Longrightarrow> updateReplica now cfg rp = rp"
  by (simp add: updateReplica_def truthy_def Let_def)

lemma assignLoop_other_erase:
  assumes "i \<notin> set ws" and "i < length (requests s)"
  shows "eraseTargetX (requests (assignLoop act ws s) ! i) = eraseTargetX (requests s ! i)"
  using assms
proof (induction ws arbitrary: s)
  case Nil
  then show ?case by simp
next
  case (Cons ri rest)
  show ?case
  proof (cases "findSlot act s")
    case None
    then show ?thesis by simp
  next
    case (Some k)
    have "eraseTargetX (requests (assignLoop act rest (assignTo act ri k s)) ! i)
            = eraseTargetX (requests (assignTo act ri k s) ! i)"
      using Cons by simp
    also have "\<dots> = eraseTargetX (requests s ! i)"
      using Cons.prems by (intro assignTo_other_erase) auto
    finally show ?thesis using Some by simp
  qed
qed

lemma startingLoop_other_erase:
  assumes "i \<notin> set ws" and "i < length (requests s)"
  shows "eraseTargetX (requests (startingLoop st q n ws s) ! i) = eraseTargetX (requests s ! i)"
  using assms
proof (induction ws arbitrary: s n)
  case Nil
  then show ?case by simp
next
  case (Cons ri rest)
  let ?rid = "rep_id (replicas s ! (st ! (n mod length st)))"
  let ?s1 = "(if waitingForReplica ?rid s < ceilDiv q (length st) + 1
                then parkOnStarting ri ?rid (waitingForReplica ?rid s) s
                else s)"
  have l: "length (requests ?s1) = length (requests s)" by simp
  have "eraseTargetX (requests (startingLoop st q (n + 1) rest ?s1) ! i) = eraseTargetX (requests ?s1 ! i)"
    using Cons.prems l by (intro Cons.IH) simp_all
  also have "\<dots> = eraseTargetX (requests s ! i)"
    using Cons.prems by (simp add: parkOnStarting_other_erase)
  finally show ?case by (simp add: Let_def)
qed

lemma assignToStartingReplicas_other_erase:
  assumes "i \<notin> set ws" and "i < length (requests s)"
  shows "eraseTargetX (requests (assignToStartingReplicas ws s) ! i) = eraseTargetX (requests s ! i)"
  using assms by (simp add: assignToStartingReplicas_def Let_def startingLoop_other_erase)

lemma tryAssignToReplicas_other_erase:
  assumes "i < length (requests s)" and "req_state (requests s ! i) \<noteq> Queued"
  shows "eraseTargetX (requests (tryAssignToReplicas s) ! i) = eraseTargetX (requests s ! i)"
proof -
  let ?w = "queueOrder (requests s)"
  let ?s1 = "assignLoop (activeOrder (replicas s)) ?w s"
  have nw: "i \<notin> set ?w" using assms(2) by (simp add: queueOrder_set)
  have s1: "eraseTargetX (requests ?s1 ! i) = eraseTargetX (requests s ! i)"
    using nw assms(1) by (rule assignLoop_other_erase)
  have "req_state (requests ?s1 ! i) \<noteq> Queued"
    using eraseTargetX_fields(1) [OF s1] assms(2) by simp
  then have "i \<notin> set (stillWaiting ?s1)" by (simp add: stillWaiting_def)
  then have "eraseTargetX (requests (assignToStartingReplicas (stillWaiting ?s1) ?s1) ! i)
               = eraseTargetX (requests ?s1 ! i)"
    using assms(1) by (intro assignToStartingReplicas_other_erase) simp_all
  moreover have "eraseTargetX (requests (assignToStartingReplicas ?w s) ! i) = eraseTargetX (requests s ! i)"
    using nw assms(1) by (rule assignToStartingReplicas_other_erase)
  ultimately show ?thesis using s1 by (simp add: tryAssignToReplicas_def Let_def)
qed

text \<open>A request that is neither queued nor exiting after the update loop is still in
  the request array, unchanged but for \<open>targetX\<close>, when the step ends.\<close>

lemma settled_request_survives_step:
  assumes "\<not> paused s"
    and "i < length (requests s)"
    and "req_state (requests (updateRequests (s\<lparr>sim_tick := sim_tick s + d * speed s\<rparr>)) ! i) \<noteq> Queued"
    and "req_state (requests (updateRequests (s\<lparr>sim_tick := sim_tick s + d * speed s\<rparr>)) ! i) \<noteq> Exiting"
  shows "\<exists>j < length (requests (tick d s)).
           eraseTargetX (requests (tick d s) ! j)
             = eraseTargetX (requests (updateRequests (s\<lparr>sim_tick := sim_tick s + d * speed s\<rparr>)) ! i)"
proof -
  let ?u = "updateRequests (s\<lparr>sim_tick := sim_tick s + d * speed s\<rparr>)"
  let ?w = "handleAutoscaling (removeExited (updateReplicas ?u))"
  have i: "i < length (requests ?u)" using assms(2) by simp
  then have "requests ?u ! i \<in> set (requests ?u)" by simp
  then have "requests ?u ! i \<in> set (requests ?w)"
    using assms(4) by (simp add: removeExited_def)
  then obtain j where j: "j < length (requests ?w)" "requests ?w ! j = requests ?u ! i"
    by (auto simp: in_set_conv_nth)
  have "eraseTargetX (requests (tryAssignToReplicas ?w) ! j) = eraseTargetX (requests ?w ! j)"
    using j assms(3) by (intro tryAssignToReplicas_other_erase) simp_all
  moreover have "requests (tick d s) = requests (tryAssignToReplicas ?w)"
    using assms(1) by (simp add: tick_def)
  ultimately show ?thesis using j by (intro exI [of _ j]) simp
qed

section \<open>C10: a ready claim and the expiry in one update\<close>

text \<open>
  C10. When \<open>updateRequest\<close> runs on a request in state \<open>waiting_for_model\<close> whose
  assigned replica is \<open>ready\<close> and whose wait since \<open>processorPickedAt\<close> exceeds
  \<open>maxTimeInQueueMs\<close>, the claim is made first (\<open>processStartedAt\<close> is set to the
  current tick) and the expiry check runs after it in the same call: the request leaves
  the call in state \<open>expired\<close>, and its id is not in the replica's
  \<open>currentRequestIds\<close>, which is the list from before the call without that id.
  When that call is the turn of request \<open>i\<close> in the update loop of an unpaused
  \<open>tick\<close>, the request is still in the request array when the step ends, in state
  \<open>expired\<close> and with \<open>processStartedAt\<close> set.
\<close>

theorem C10_ready_claim_then_expiry:
  assumes "i < length (requests t)"
    and "req_state (requests t ! i) = WaitingForModel"
    and "assignedReplica (requests t ! i) = Some a"
    and "findIndex (\<lambda>rp. rep_id rp = a) (replicas t) = Some j"
    and "rep_state (replicas t ! j) = Ready"
    and "sim_tick t - orZero (processorPickedAt (requests t ! i)) > maxTimeInQueueMs (config t)"
  shows "req_state (requests (updateRequest i t) ! i) = Expired
       \<and> processStartedAt (requests (updateRequest i t) ! i) = Some (sim_tick t)
       \<and> req_id (requests t ! i) \<notin> set (currentRequestIds (replicas (updateRequest i t) ! j))
       \<and> currentRequestIds (replicas (updateRequest i t) ! j)
           = filter (\<lambda>k. k \<noteq> req_id (requests t ! i)) (currentRequestIds (replicas t ! j))
       \<and> (\<forall>s d. \<not> paused s
              \<and> t = fold updateRequest [0..<i] (s\<lparr>sim_tick := sim_tick s + d * speed s\<rparr>)
              \<longrightarrow> (\<exists>k < length (requests (tick d s)).
                     req_state (requests (tick d s) ! k) = Expired
                     \<and> req_id (requests (tick d s) ! k) = req_id (requests t ! i)
                     \<and> processStartedAt (requests (tick d s) ! k) = Some (sim_tick t)))"
proof -
  have j: "j < length (replicas t)"
    using assms(4) by (simp add: findIndex_Some)
  have now: "req_state (requests (updateRequest i t) ! i) = Expired
       \<and> processStartedAt (requests (updateRequest i t) ! i) = Some (sim_tick t)
       \<and> req_id (requests (updateRequest i t) ! i) = req_id (requests t ! i)
       \<and> req_id (requests t ! i) \<notin> set (currentRequestIds (replicas (updateRequest i t) ! j))
       \<and> currentRequestIds (replicas (updateRequest i t) ! j)
           = filter (\<lambda>k. k \<noteq> req_id (requests t ! i)) (currentRequestIds (replicas t ! j))"
    using assms j
    by (simp add: updateRequest_def updWaitingForModel_def lerpRequest_def Let_def
        recomputeState_def)
  have step: "\<exists>k < length (requests (tick d s)).
                     req_state (requests (tick d s) ! k) = Expired
                     \<and> req_id (requests (tick d s) ! k) = req_id (requests t ! i)
                     \<and> processStartedAt (requests (tick d s) ! k) = Some (sim_tick t)"
    if p: "\<not> paused s"
      and tdef: "t = fold updateRequest [0..<i] (s\<lparr>sim_tick := sim_tick s + d * speed s\<rparr>)"
    for s d
  proof -
    let ?s0 = "s\<lparr>sim_tick := sim_tick s + d * speed s\<rparr>"
    let ?u = "updateRequests ?s0"
    have i0: "i < length (requests ?s0)" using assms(1) tdef by simp
    then have isl: "i < length (requests s)" by simp
    have "?u = fold updateRequest [Suc i..<length (requests ?s0)] (updateRequest i t)"
      using updateRequests_turn [OF i0] tdef by simp
    then have e: "eraseTargetX (requests ?u ! i) = eraseTargetX (requests (updateRequest i t) ! i)"
      using assms(1) by (simp add: fold_updateRequest_other)
    have u: "req_state (requests ?u ! i) = Expired"
      "req_id (requests ?u ! i) = req_id (requests t ! i)"
      "processStartedAt (requests ?u ! i) = Some (sim_tick t)"
      using eraseTargetX_fields(1,2,4) [OF e] now by simp_all
    from settled_request_survives_step [OF p isl, of d] u(1)
    obtain k where k: "k < length (requests (tick d s))"
      "eraseTargetX (requests (tick d s) ! k) = eraseTargetX (requests ?u ! i)"
      by auto
    show ?thesis
      using k(1) eraseTargetX_fields(1,2,4) [OF k(2)] u by (intro exI [of _ k]) simp
  qed
  show ?thesis using now step by blast
qed

theorem C10_ready_claim_then_expiry_witness:
  "req_state (requests (updateRequest 0 exampleWaiting) ! 0) = Expired
   \<and> processStartedAt (requests (updateRequest 0 exampleWaiting) ! 0) = Some 20000
   \<and> 0 \<notin> set (currentRequestIds (replicas (updateRequest 0 exampleWaiting) ! 0))
   \<and> currentRequestIds (replicas (updateRequest 0 exampleWaiting) ! 0) = []
   \<and> (\<exists>k < length (requests (tick 5000 (exampleWaiting\<lparr>sim_tick := 15000\<rparr>))).
         req_state (requests (tick 5000 (exampleWaiting\<lparr>sim_tick := 15000\<rparr>)) ! k) = Expired
         \<and> req_id (requests (tick 5000 (exampleWaiting\<lparr>sim_tick := 15000\<rparr>)) ! k) = 0
         \<and> processStartedAt (requests (tick 5000 (exampleWaiting\<lparr>sim_tick := 15000\<rparr>)) ! k) = Some 20000)"
proof -
  have e: "exampleWaiting
             = fold updateRequest [0..<0] ((exampleWaiting\<lparr>sim_tick := 15000\<rparr>)
                 \<lparr>sim_tick := sim_tick (exampleWaiting\<lparr>sim_tick := 15000\<rparr>)
                               + 5000 * speed (exampleWaiting\<lparr>sim_tick := 15000\<rparr>)\<rparr>)"
    by (simp add: exampleWaiting_def newSimulation_def DEFAULT_CONFIG_def)
  have p: "\<not> paused (exampleWaiting\<lparr>sim_tick := 15000\<rparr>)"
    by (simp add: exampleWaiting_def newSimulation_def DEFAULT_CONFIG_def)
  have h: "0 < length (requests exampleWaiting)"
    "req_state (requests exampleWaiting ! 0) = WaitingForModel"
    "assignedReplica (requests exampleWaiting ! 0) = Some 0"
    "findIndex (\<lambda>rp. rep_id rp = 0) (replicas exampleWaiting) = Some 0"
    "rep_state (replicas exampleWaiting ! 0) = Ready"
    "sim_tick exampleWaiting - orZero (processorPickedAt (requests exampleWaiting ! 0))
       > maxTimeInQueueMs (config exampleWaiting)"
    by (simp_all add: exampleWaiting_def newSimulation_def DEFAULT_CONFIG_def orZero_def)
  have x: "req_id (requests exampleWaiting ! 0) = 0" "sim_tick exampleWaiting = 20000"
    "currentRequestIds (replicas exampleWaiting ! 0) = []"
    by (simp_all add: exampleWaiting_def)
  note c = C10_ready_claim_then_expiry [OF h]
  from c have "\<forall>s d. \<not> paused s
              \<and> exampleWaiting = fold updateRequest [0..<0] (s\<lparr>sim_tick := sim_tick s + d * speed s\<rparr>)
              \<longrightarrow> (\<exists>k < length (requests (tick d s)).
                     req_state (requests (tick d s) ! k) = Expired
                     \<and> req_id (requests (tick d s) ! k) = req_id (requests exampleWaiting ! 0)
                     \<and> processStartedAt (requests (tick d s) ! k) = Some (sim_tick exampleWaiting))"
    by blast
  from this [rule_format, of "exampleWaiting\<lparr>sim_tick := 15000\<rparr>" 5000] p e
  have "\<exists>k < length (requests (tick 5000 (exampleWaiting\<lparr>sim_tick := 15000\<rparr>))).
         req_state (requests (tick 5000 (exampleWaiting\<lparr>sim_tick := 15000\<rparr>)) ! k) = Expired
         \<and> req_id (requests (tick 5000 (exampleWaiting\<lparr>sim_tick := 15000\<rparr>)) ! k) = 0
         \<and> processStartedAt (requests (tick 5000 (exampleWaiting\<lparr>sim_tick := 15000\<rparr>)) ! k) = Some 20000"
    unfolding x by blast
  moreover from c have "req_state (requests (updateRequest 0 exampleWaiting) ! 0) = Expired
   \<and> processStartedAt (requests (updateRequest 0 exampleWaiting) ! 0) = Some 20000
   \<and> 0 \<notin> set (currentRequestIds (replicas (updateRequest 0 exampleWaiting) ! 0))
   \<and> currentRequestIds (replicas (updateRequest 0 exampleWaiting) ! 0) = []"
    unfolding x by simp
  ultimately show ?thesis by blast
qed

end
